theory Spec2Isabelle
  imports Main "HOL-Library.Sublist"
begin

section \<open>Python strings\<close>

text \<open>
  A Python \<open>str\<close> is a sequence of code points. The model keeps the code points below
  256, one \<^typ>\<open>char\<close> each, so that \<open>CHR 0xB2\<close> is the character SUPERSCRIPT TWO.
  \<open>sub in s\<close> is substring containment, \<open>s.startswith(p)\<close> is \<^const>\<open>prefix\<close>.
\<close>

fun py_in :: "string \<Rightarrow> string \<Rightarrow> bool" where
  "py_in sub [] = (sub = [])"
| "py_in sub (c # cs) = (prefix sub (c # cs) \<or> py_in sub cs)"

definition startswith :: "string \<Rightarrow> string \<Rightarrow> bool" where
  "startswith s p = prefix p s"

text \<open>\<open>str.isspace\<close> on one character: the Unicode whitespace below 256.\<close>

definition py_isspace :: "char \<Rightarrow> bool" where
  "py_isspace c = (of_char c \<in> {9, 10, 11, 12, 13, 28, 29, 30, 31, 32, 133, 160 :: nat})"

definition py_strip :: "string \<Rightarrow> string" where
  "py_strip s = rev (dropWhile py_isspace (rev (dropWhile py_isspace s)))"

text \<open>
  \<open>s.replace(old, new)\<close> for a non-empty \<open>old\<close>: the occurrences are replaced from the
  left, without overlap. With an empty \<open>old\<close> Python puts \<open>new\<close> before every character
  and at the end.
\<close>

fun replace_from :: "string \<Rightarrow> string \<Rightarrow> string \<Rightarrow> string" where
  "replace_from old new [] = []"
| "replace_from old new (c # cs) =
     (if prefix old (c # cs) then new @ replace_from old new (drop (length old - 1) cs)
      else c # replace_from old new cs)"

definition py_replace :: "string \<Rightarrow> string \<Rightarrow> string \<Rightarrow> string" where
  "py_replace s old new =
     (if old = [] then concat (map (\<lambda>c. new @ [c]) s) @ new else replace_from old new s)"

section \<open>The run state of the agent (agent.py)\<close>

datatype py_error = KeyError string

type_synonym BaseMessage = "string \<times> string"

text \<open>
  \<open>AgentState\<close> is a \<open>TypedDict\<close>, at run time a plain dict: a key may be absent (the
  initial state of the source holds \<open>question\<close> and \<open>chat_history\<close> only). Each field is
  an option, \<open>None\<close> for an absent key. The same record type is the partial dict a
  node returns; the graph writes the keys of that dict over the state.
\<close>

record AgentState =
  question :: "string option"
  chat_history :: "BaseMessage list option"
  query :: "string option"
  result :: "string option"
  answer :: "string option"
  retries :: "int option"
  intent :: "string option"

definition no_keys :: AgentState where
  "no_keys = \<lparr>question = None, chat_history = None, query = None, result = None,
     answer = None, retries = None, intent = None\<rparr>"

definition over :: "'a option \<Rightarrow> 'a option \<Rightarrow> 'a option" where
  "over old new = (case new of None \<Rightarrow> old | Some v \<Rightarrow> Some v)"

definition apply_update :: "AgentState \<Rightarrow> AgentState \<Rightarrow> AgentState" where
  "apply_update s u = \<lparr>question = over (question s) (question u),
     chat_history = over (chat_history s) (chat_history u),
     query = over (query s) (query u),
     result = over (result s) (result u),
     answer = over (answer s) (answer u),
     retries = over (retries s) (retries u),
     intent = over (intent s) (intent u)\<rparr>"

text \<open>\<open>state.get(key, default)\<close> and \<open>state[key]\<close>.\<close>

definition get_or :: "'a option \<Rightarrow> 'a \<Rightarrow> 'a" where
  "get_or field d = (case field of None \<Rightarrow> d | Some v \<Rightarrow> v)"

definition subscript :: "string \<Rightarrow> 'a option \<Rightarrow> py_error + 'a" where
  "subscript key field = (case field of None \<Rightarrow> Inl (KeyError key) | Some v \<Rightarrow> Inr v)"

section \<open>The external services\<close>

text \<open>
  The model, the agent executor, the schema provider and the SQL tool are outside the
  repository. Each is a function of what the node hands to it and of the index of the
  graph step that calls it, so that two calls with the same arguments may answer
  differently. The prompt templates are constants of the source; of the generator's
  system prompt the service sees whether the repair paragraph was appended.
\<close>

record tool_call =
  tc_name :: string
  tc_args :: string

record services =
  classify_llm :: "nat \<Rightarrow> string \<Rightarrow> BaseMessage list \<Rightarrow> tool_call list"
  agent_executor :: "nat \<Rightarrow> string \<Rightarrow> BaseMessage list \<Rightarrow> string"
  get_table_info :: "nat \<Rightarrow> string"
  generate_llm :: "nat \<Rightarrow> bool \<Rightarrow> string \<Rightarrow> BaseMessage list \<Rightarrow> string \<Rightarrow> string \<Rightarrow> string"
  execute_query_tool :: "nat \<Rightarrow> string \<Rightarrow> string"
  summarizer_llm :: "nat \<Rightarrow> string \<Rightarrow> string \<Rightarrow> string \<Rightarrow> string"
  error_llm :: "nat \<Rightarrow> string \<Rightarrow> string \<Rightarrow> string \<Rightarrow> string"

section \<open>The nodes\<close>

definition classify_intent_node :: "services \<Rightarrow> nat \<Rightarrow> AgentState \<Rightarrow> py_error + AgentState" where
  "classify_intent_node sv n state =
     (case subscript ''question'' (question state) of
        Inl e \<Rightarrow> Inl e
      | Inr q \<Rightarrow>
          (let tool_calls = classify_llm sv n q (get_or (chat_history state) []);
               intent = (case tool_calls of [] \<Rightarrow> ''Conversation'' | tc # _ \<Rightarrow> tc_name tc)
           in Inr (no_keys\<lparr>intent := Some intent\<rparr>)))"

definition decide_intent_path :: "AgentState \<Rightarrow> py_error + string" where
  "decide_intent_path state =
     (case subscript ''intent'' (intent state) of
        Inl e \<Rightarrow> Inl e
      | Inr i \<Rightarrow> if i = ''DatabaseQuery'' then Inr ''generate_query''
                 else Inr ''handle_conversation'')"

definition handle_conversation_node :: "services \<Rightarrow> nat \<Rightarrow> AgentState \<Rightarrow> py_error + AgentState" where
  "handle_conversation_node sv n state =
     (case subscript ''question'' (question state) of
        Inl e \<Rightarrow> Inl e
      | Inr q \<Rightarrow>
          (let output = agent_executor sv n q (get_or (chat_history state) [])
           in Inr (no_keys\<lparr>answer := Some output\<rparr>)))"

definition generate_query_node :: "services \<Rightarrow> nat \<Rightarrow> AgentState \<Rightarrow> py_error + AgentState" where
  "generate_query_node sv n state =
     (let repair = py_in ''Error:'' (get_or (result state) '''') in
      case subscript ''question'' (question state) of
        Inl e \<Rightarrow> Inl e
      | Inr q \<Rightarrow>
          (let raw_query = generate_llm sv n repair q (get_or (chat_history state) [])
                             (get_table_info sv n) (get_or (result state) '''');
               sql_query = py_strip (py_replace (py_replace (py_strip raw_query)
                             ''```sql'' '''') ''```'' '''');
               r = get_or (retries state) 0
           in Inr (no_keys\<lparr>query := Some sql_query, retries := Some (r + 1)\<rparr>)))"

definition execute_query_node :: "services \<Rightarrow> nat \<Rightarrow> AgentState \<Rightarrow> py_error + AgentState" where
  "execute_query_node sv n state =
     (case subscript ''query'' (query state) of
        Inl e \<Rightarrow> Inl e
      | Inr q \<Rightarrow> Inr (no_keys\<lparr>result := Some (execute_query_tool sv n q)\<rparr>))"

definition decide_result_status :: "AgentState \<Rightarrow> py_error + string" where
  "decide_result_status state =
     (case subscript ''result'' (result state) of
        Inl e \<Rightarrow> Inl e
      | Inr res \<Rightarrow>
          if py_in ''Error:'' res then
            (case subscript ''retries'' (retries state) of
               Inl e \<Rightarrow> Inl e
             | Inr r \<Rightarrow> if r > 7 then Inr ''handle_error'' else Inr ''generate_query'')
          else Inr ''summarize_result'')"

definition handle_error_node :: "services \<Rightarrow> nat \<Rightarrow> AgentState \<Rightarrow> py_error + AgentState" where
  "handle_error_node sv n state =
     (case subscript ''question'' (question state) of
        Inl e \<Rightarrow> Inl e
      | Inr q \<Rightarrow>
          (let error = get_or (result state) ''Unknown error'' in
           case subscript ''query'' (query state) of
             Inl e \<Rightarrow> Inl e
           | Inr qu \<Rightarrow> Inr (no_keys\<lparr>answer := Some (error_llm sv n q qu error)\<rparr>)))"

definition summarize_result_node :: "services \<Rightarrow> nat \<Rightarrow> AgentState \<Rightarrow> py_error + AgentState" where
  "summarize_result_node sv n state =
     (case subscript ''question'' (question state) of
        Inl e \<Rightarrow> Inl e
      | Inr q \<Rightarrow>
          (case subscript ''result'' (result state) of
             Inl e \<Rightarrow> Inl e
           | Inr res \<Rightarrow>
               (case subscript ''query'' (query state) of
                  Inl e \<Rightarrow> Inl e
                | Inr qu \<Rightarrow> Inr (no_keys\<lparr>answer := Some (summarizer_llm sv n q qu res)\<rparr>))))"

section \<open>The graph\<close>

datatype node = classify_intent | handle_conversation | generate_query | execute_query
  | summarize_result | handle_error | END

definition intent_path_map :: "(string \<times> node) list" where
  "intent_path_map = [(''generate_query'', generate_query),
     (''handle_conversation'', handle_conversation)]"

definition result_path_map :: "(string \<times> node) list" where
  "result_path_map = [(''generate_query'', generate_query),
     (''summarize_result'', summarize_result), (''handle_error'', handle_error)]"

definition conditional_edge ::
  "(AgentState \<Rightarrow> py_error + string) \<Rightarrow> (string \<times> node) list \<Rightarrow> AgentState \<Rightarrow> py_error + node" where
  "conditional_edge path path_map state =
     (case path state of
        Inl e \<Rightarrow> Inl e
      | Inr k \<Rightarrow> subscript k (map_of path_map k))"

text \<open>The function of a node, and the edge that leaves it, read on the updated state.\<close>

fun node_fn :: "services \<Rightarrow> nat \<Rightarrow> node \<Rightarrow> AgentState \<Rightarrow> py_error + AgentState" where
  "node_fn sv n classify_intent s = classify_intent_node sv n s"
| "node_fn sv n handle_conversation s = handle_conversation_node sv n s"
| "node_fn sv n generate_query s = generate_query_node sv n s"
| "node_fn sv n execute_query s = execute_query_node sv n s"
| "node_fn sv n summarize_result s = summarize_result_node sv n s"
| "node_fn sv n handle_error s = handle_error_node sv n s"
| "node_fn sv n END s = Inr no_keys"

fun edge :: "node \<Rightarrow> AgentState \<Rightarrow> py_error + node" where
  "edge classify_intent s = conditional_edge decide_intent_path intent_path_map s"
| "edge generate_query s = Inr execute_query"
| "edge execute_query s = conditional_edge decide_result_status result_path_map s"
| "edge handle_conversation s = Inr END"
| "edge handle_error s = Inr END"
| "edge summarize_result s = Inr END"
| "edge END s = Inr END"

text \<open>
  One step of the graph: the node runs on the state, its dict is written over the
  state, and the edge picks the next node. The step gives the dict too, so that a
  trace shows which keys each node wrote.
\<close>

definition step :: "services \<Rightarrow> nat \<Rightarrow> node \<Rightarrow> AgentState \<Rightarrow> py_error + (AgentState \<times> AgentState \<times> node)" where
  "step sv n nd s =
     (case node_fn sv n nd s of
        Inl e \<Rightarrow> Inl e
      | Inr u \<Rightarrow>
          (let s' = apply_update s u in
           case edge nd s' of
             Inl e \<Rightarrow> Inl e
           | Inr nd' \<Rightarrow> Inr (u, s', nd')))"

section \<open>Running the graph\<close>

lemma apply_update_no_keys_upd:
  "apply_update s (no_keys\<lparr>intent := Some i\<rparr>) = s\<lparr>intent := Some i\<rparr>"
  "apply_update s (no_keys\<lparr>answer := Some a\<rparr>) = s\<lparr>answer := Some a\<rparr>"
  "apply_update s (no_keys\<lparr>result := Some r\<rparr>) = s\<lparr>result := Some r\<rparr>"
  "apply_update s (no_keys\<lparr>query := Some q, retries := Some k\<rparr>) = s\<lparr>query := Some q, retries := Some k\<rparr>"
  by (simp_all add: apply_update_def no_keys_def over_def)

lemma edge_classify:
  "edge classify_intent s =
     (case intent s of None \<Rightarrow> Inl (KeyError ''intent'')
      | Some i \<Rightarrow> Inr (if i = ''DatabaseQuery'' then generate_query else handle_conversation))"
  by (simp add: conditional_edge_def decide_intent_path_def intent_path_map_def subscript_def
      split: option.splits)

lemma edge_execute:
  "edge execute_query s =
     (case result s of None \<Rightarrow> Inl (KeyError ''result'')
      | Some r \<Rightarrow>
          if py_in ''Error:'' r
          then (case retries s of None \<Rightarrow> Inl (KeyError ''retries'')
                | Some k \<Rightarrow> Inr (if k > 7 then handle_error else generate_query))
          else Inr summarize_result)"
  by (simp add: conditional_edge_def decide_result_status_def result_path_map_def subscript_def
      split: option.splits)

lemma step_eq:
  "node_fn sv n nd s = Inr u \<Longrightarrow> step sv n nd s =
     (case edge nd (apply_update s u) of Inl e \<Rightarrow> Inl e
      | Inr nd' \<Rightarrow> Inr (u, apply_update s u, nd'))"
  by (simp add: step_def Let_def)

lemma step_classify:
  assumes "step sv n classify_intent s = Inr (u, s', nd')"
  obtains i where "u = no_keys\<lparr>intent := Some i\<rparr>" and "s' = s\<lparr>intent := Some i\<rparr>"
    and "nd' = (if i = ''DatabaseQuery'' then generate_query else handle_conversation)"
    and "question s \<noteq> None"
proof -
  from assms obtain q where q: "question s = Some q"
    by (cases "question s") (simp_all add: step_def classify_intent_node_def subscript_def)
  define i where "i = (case classify_llm sv n q (get_or (chat_history s) []) of
      [] \<Rightarrow> ''Conversation'' | tc # _ \<Rightarrow> tc_name tc)"
  have nf: "node_fn sv n classify_intent s = Inr (no_keys\<lparr>intent := Some i\<rparr>)"
    by (simp add: classify_intent_node_def subscript_def q i_def Let_def)
  have "edge classify_intent (s\<lparr>intent := Some i\<rparr>) =
      Inr (if i = ''DatabaseQuery'' then generate_query else handle_conversation)"
    by (simp add: edge_classify del: edge.simps)
  with assms have "u = no_keys\<lparr>intent := Some i\<rparr>" and "s' = s\<lparr>intent := Some i\<rparr>"
    and "nd' = (if i = ''DatabaseQuery'' then generate_query else handle_conversation)"
    by (simp_all add: step_eq[OF nf] apply_update_no_keys_upd del: edge.simps)
  with q show thesis by (intro that) simp_all
qed

lemma step_generate:
  assumes "step sv n generate_query s = Inr (u, s', nd')"
  obtains q where "u = no_keys\<lparr>query := Some q, retries := Some (get_or (retries s) 0 + 1)\<rparr>"
    and "s' = s\<lparr>query := Some q, retries := Some (get_or (retries s) 0 + 1)\<rparr>"
    and "nd' = execute_query" and "question s \<noteq> None"
proof -
  from assms obtain q where q: "question s = Some q"
    by (cases "question s") (simp_all add: step_def generate_query_node_def subscript_def Let_def)
  define sql where "sql = py_strip (py_replace (py_replace (py_strip
      (generate_llm sv n (py_in ''Error:'' (get_or (result s) [])) q
         (get_or (chat_history s) []) (get_table_info sv n) (get_or (result s) [])))
      ''```sql'' []) ''```'' [])"
  have nf: "node_fn sv n generate_query s =
      Inr (no_keys\<lparr>query := Some sql, retries := Some (get_or (retries s) 0 + 1)\<rparr>)"
    by (simp add: generate_query_node_def subscript_def q sql_def Let_def)
  from assms have "u = no_keys\<lparr>query := Some sql, retries := Some (get_or (retries s) 0 + 1)\<rparr>"
    and "s' = s\<lparr>query := Some sql, retries := Some (get_or (retries s) 0 + 1)\<rparr>"
    and "nd' = execute_query"
    by (simp_all add: step_eq[OF nf] apply_update_no_keys_upd)
  with q show thesis by (intro that) simp_all
qed

lemma step_execute:
  assumes "step sv n execute_query s = Inr (u, s', nd')"
  obtains r where "u = no_keys\<lparr>result := Some r\<rparr>" and "s' = s\<lparr>result := Some r\<rparr>"
    and "query s \<noteq> None"
    and "py_in ''Error:'' r \<Longrightarrow>
           \<exists>k. retries s = Some k \<and> nd' = (if k > 7 then handle_error else generate_query)"
    and "\<not> py_in ''Error:'' r \<Longrightarrow> nd' = summarize_result"
proof -
  from assms obtain q where q: "query s = Some q"
    by (cases "query s") (simp_all add: step_def execute_query_node_def subscript_def)
  define r where "r = execute_query_tool sv n q"
  have nf: "node_fn sv n execute_query s = Inr (no_keys\<lparr>result := Some r\<rparr>)"
    by (simp add: execute_query_node_def subscript_def q r_def)
  from assms have e: "edge execute_query (s\<lparr>result := Some r\<rparr>) = Inr nd'"
    and u: "u = no_keys\<lparr>result := Some r\<rparr>" and s': "s' = s\<lparr>result := Some r\<rparr>"
    by (simp_all add: step_eq[OF nf] apply_update_no_keys_upd del: edge.simps split: sum.splits)
  have a: "\<exists>k. retries s = Some k \<and> nd' = (if k > 7 then handle_error else generate_query)"
    if "py_in ''Error:'' r"
    using e that by (cases "retries s") (auto simp: edge_execute simp del: edge.simps)
  have b: "nd' = summarize_result" if "\<not> py_in ''Error:'' r"
    using e that by (auto simp: edge_execute simp del: edge.simps)
  show thesis
  proof (rule that[OF u s'])
    show "query s \<noteq> None" by (simp add: q)
  qed (fact a b)+
qed

text \<open>The three nodes with an edge to \<open>END\<close>.\<close>

definition terminal :: "node \<Rightarrow> bool" where
  "terminal nd = (nd = handle_conversation \<or> nd = summarize_result \<or> nd = handle_error)"

lemma step_terminal:
  assumes "step sv n nd s = Inr (u, s', nd')" and "terminal nd"
  obtains a where "u = no_keys\<lparr>answer := Some a\<rparr>" and "s' = s\<lparr>answer := Some a\<rparr>"
    and "nd' = END"
proof -
  from assms obtain u0 where u0: "node_fn sv n nd s = Inr u0"
    by (cases "node_fn sv n nd s") (simp_all add: step_def)
  from assms(2) u0 have "answer u0 \<noteq> None \<and> u0 = no_keys\<lparr>answer := answer u0\<rparr>"
    unfolding terminal_def
    by (elim disjE)
      (auto simp: handle_conversation_node_def summarize_result_node_def
        handle_error_node_def subscript_def Let_def split: option.splits)
  then obtain a where a: "u0 = no_keys\<lparr>answer := Some a\<rparr>"
    by (cases "answer u0") simp_all
  from assms(2) have "edge nd (s\<lparr>answer := Some a\<rparr>) = Inr END"
    by (auto simp: terminal_def)
  with assms(1) u0 a have "u = no_keys\<lparr>answer := Some a\<rparr>" and "s' = s\<lparr>answer := Some a\<rparr>"
    and "nd' = END"
    by (simp_all add: step_eq[OF u0] apply_update_no_keys_upd del: edge.simps)
  then show thesis by (rule that)
qed


text \<open>
  The loop of the graph ends because each pass through the generator adds 1 to
  \<open>retries\<close> and the router leaves the loop once it exceeds 7: the weight below
  falls at every step of the graph.
\<close>

fun weight :: "node \<Rightarrow> AgentState \<Rightarrow> nat" where
  "weight END s = 0"
| "weight handle_conversation s = 1"
| "weight summarize_result s = 1"
| "weight handle_error s = 1"
| "weight generate_query s = 2 * nat (8 - get_or (retries s) 0) + 4"
| "weight execute_query s = 2 * nat (9 - get_or (retries s) 0) + 3"
| "weight classify_intent s = 2 * nat (8 - get_or (retries s) 0) + 5"

lemma step_weight:
  assumes st: "step sv n nd s = Inr (u, s', nd')" and "nd \<noteq> END"
  shows "weight nd' s' < weight nd s"
proof (cases nd)
  case classify_intent
  with st show ?thesis by (auto elim!: step_classify)
next
  case generate_query
  with st show ?thesis by (auto elim!: step_generate simp: get_or_def)
next
  case execute_query
  from st[unfolded execute_query] show ?thesis
  proof (rule step_execute)
    fix r assume s': "s' = s\<lparr>result := Some r\<rparr>"
      and a: "py_in ''Error:'' r \<Longrightarrow>
           \<exists>k. retries s = Some k \<and> nd' = (if k > 7 then handle_error else generate_query)"
      and b: "\<not> py_in ''Error:'' r \<Longrightarrow> nd' = summarize_result"
    show ?thesis
    proof (cases "py_in ''Error:'' r")
      case True
      from a[OF True] s' execute_query show ?thesis by (auto simp: get_or_def)
    next
      case False
      from b[OF False] s' execute_query show ?thesis by simp
    qed
  qed
next
  case END
  with assms show ?thesis by simp
next
  case handle_conversation
  with st show ?thesis by (auto elim!: step_terminal simp: terminal_def)
next
  case summarize_result
  with st show ?thesis by (auto elim!: step_terminal simp: terminal_def)
next
  case handle_error
  with st show ?thesis by (auto elim!: step_terminal simp: terminal_def)
qed

text \<open>
  \<open>graph.invoke\<close>: from the entry point, run the node, follow the edge, stop at
  \<open>END\<close>. A raise in a node or in a router ends the run with the error. The run
  gives its trace, one entry per node it ran (the node, the dict the node returned,
  the state after it), and the final state.
\<close>

function run_from ::
  "services \<Rightarrow> nat \<Rightarrow> node \<Rightarrow> AgentState \<Rightarrow> py_error + ((node \<times> AgentState \<times> AgentState) list \<times> AgentState)" where
  "run_from sv n nd s =
     (if nd = END then Inr ([], s)
      else case step sv n nd s of
             Inl e \<Rightarrow> Inl e
           | Inr (u, s', nd') \<Rightarrow>
               (case run_from sv (Suc n) nd' s' of
                  Inl e \<Rightarrow> Inl e
                | Inr (tr, sf) \<Rightarrow> Inr ((nd, u, s') # tr, sf)))"
  by pat_completeness auto
termination
proof (relation "measure (\<lambda>(sv, n, nd, s). weight nd s)")
  show "wf (measure (\<lambda>(sv, n, nd, s). weight nd s))" by simp
next
  fix sv n nd s x2 x y xa ya
  assume "nd \<noteq> END" and "step sv n nd s = Inr x2" and "(x, y) = x2" and "(xa, ya) = y"
  then have "weight ya xa < weight nd s" using step_weight[of sv n nd s x xa ya] by simp
  then show "((sv, Suc n, ya, xa), sv, n, nd, s) \<in> measure (\<lambda>(sv, n, nd, s). weight nd s)"
    by simp
qed

declare run_from.simps [simp del]

definition graph_invoke ::
  "services \<Rightarrow> AgentState \<Rightarrow> py_error + ((node \<times> AgentState \<times> AgentState) list \<times> AgentState)" where
  "graph_invoke sv s = run_from sv 0 classify_intent s"

lemma run_from_END: "run_from sv n END s = Inr ([], s)"
  by (simp add: run_from.simps)

lemma run_from_unfold:
  "nd \<noteq> END \<Longrightarrow> run_from sv n nd s =
     (case step sv n nd s of
        Inl e \<Rightarrow> Inl e
      | Inr (u, s', nd') \<Rightarrow>
          (case run_from sv (Suc n) nd' s' of
             Inl e \<Rightarrow> Inl e
           | Inr (tr, sf) \<Rightarrow> Inr ((nd, u, s') # tr, sf)))"
  by (subst run_from.simps) simp

lemma run_from_step:
  "nd \<noteq> END \<Longrightarrow> step sv n nd s = Inr (u, s', nd') \<Longrightarrow>
   run_from sv (Suc n) nd' s' = Inr (tr, sf) \<Longrightarrow>
   run_from sv n nd s = Inr ((nd, u, s') # tr, sf)"
  by (simp add: run_from_unfold)

lemma run_from_Inr:
  assumes "run_from sv n nd s = Inr (tr, sf)" and "nd \<noteq> END"
  obtains u s' nd' tr' where "step sv n nd s = Inr (u, s', nd')"
    and "run_from sv (Suc n) nd' s' = Inr (tr', sf)" and "tr = (nd, u, s') # tr'"
proof (cases "step sv n nd s")
  case (Inl e)
  with assms show ?thesis by (simp add: run_from_unfold)
next
  case (Inr x)
  obtain u s' nd' where x: "x = (u, s', nd')" by (cases x)
  show ?thesis
  proof (cases "run_from sv (Suc n) nd' s'")
    case (Inl e)
    with assms Inr x show ?thesis by (simp add: run_from_unfold)
  next
    case r: (Inr y)
    obtain tr' sf' where y: "y = (tr', sf')" by (cases y)
    from assms Inr x r y have "tr = (nd, u, s') # tr'" and "sf' = sf"
      by (simp_all add: run_from_unfold)
    with Inr x r y show ?thesis by (intro that[of u s' nd' tr']) simp_all
  qed
qed

lemma run_from_trace_induct [consumes 1, case_names END step]:
  assumes run: "run_from sv n nd s = Inr (tr, sf)"
    and base: "\<And>n s. P n END s [] s"
    and stp: "\<And>n nd s u s' nd' tr sf. nd \<noteq> END \<Longrightarrow> step sv n nd s = Inr (u, s', nd') \<Longrightarrow>
      run_from sv (Suc n) nd' s' = Inr (tr, sf) \<Longrightarrow> P (Suc n) nd' s' tr sf \<Longrightarrow>
      P n nd s ((nd, u, s') # tr) sf"
  shows "P n nd s tr sf"
proof -
  have "\<forall>tr sf. run_from sv' n nd s = Inr (tr, sf) \<longrightarrow> sv' = sv \<longrightarrow> P n nd s tr sf" for sv'
  proof (induction sv' n nd s rule: run_from.induct)
    case (1 sv' n nd s)
    show ?case
    proof (intro allI impI)
      fix tr sf
      assume r: "run_from sv' n nd s = Inr (tr, sf)" and eq: "sv' = sv"
      show "P n nd s tr sf"
      proof (cases "nd = END")
        case True
        with r base show ?thesis by (simp add: run_from_END)
      next
        case False
        from r False obtain u s' nd' tr' where
          st: "step sv' n nd s = Inr (u, s', nd')" and
          rn: "run_from sv' (Suc n) nd' s' = Inr (tr', sf)" and tr: "tr = (nd, u, s') # tr'"
          by (rule run_from_Inr)
        from "1.IH"[OF False st refl refl] rn eq have "P (Suc n) nd' s' tr' sf" by blast
        with stp[OF False] st rn tr eq show ?thesis by simp
      qed
    qed
  qed
  with run show ?thesis by blast
qed

text \<open>The \<open>initial_state\<close> of the source, and services whose query tool fails every time.\<close>

definition initial_state :: AgentState where
  "initial_state = no_keys\<lparr>question := Some ''Aaj kya date?'', chat_history := Some []\<rparr>"

definition failing :: services where
  "failing = \<lparr>classify_llm = (\<lambda>n q h. [\<lparr>tc_name = ''DatabaseQuery'', tc_args = ''{}''\<rparr>]),
     agent_executor = (\<lambda>n q h. ''hello''),
     get_table_info = (\<lambda>n. ''CREATE TABLE t (a INTEGER)''),
     generate_llm = (\<lambda>n rep q h sch err. ''```sql SELECT x FROM t```''),
     execute_query_tool = (\<lambda>n q. ''Error: no such column: x''),
     summarizer_llm = (\<lambda>n q qu r. ''summary''),
     error_llm = (\<lambda>n q qu e. ''sorry'')\<rparr>"

section \<open>Facts about every run\<close>

lemma prefix_py_in: "prefix p r \<Longrightarrow> py_in p r"
  by (cases r) simp_all

lemma no_keys_sel [simp]:
  "question no_keys = None" "chat_history no_keys = None" "query no_keys = None"
  "result no_keys = None" "answer no_keys = None" "retries no_keys = None" "intent no_keys = None"
  by (simp_all add: no_keys_def)

text \<open>Reading a trace: the nodes, the states after them, the value of \<open>state.get("retries", 0)\<close>.\<close>

type_synonym trace = "(node \<times> AgentState \<times> AgentState) list"

definition visited :: "trace \<Rightarrow> node list" where
  "visited tr = map fst tr"

definition states_after :: "trace \<Rightarrow> AgentState list" where
  "states_after tr = map (\<lambda>e. snd (snd e)) tr"

definition retries_of :: "AgentState \<Rightarrow> int" where
  "retries_of s = get_or (retries s) 0"

definition writes_answer :: "node \<times> AgentState \<times> AgentState \<Rightarrow> bool" where
  "writes_answer e = (answer (fst (snd e)) \<noteq> None)"

lemma terminal_simps [simp]:
  "terminal handle_conversation" "terminal summarize_result" "terminal handle_error"
  "\<not> terminal classify_intent" "\<not> terminal generate_query" "\<not> terminal execute_query"
  "\<not> terminal END"
  by (simp_all add: terminal_def)

lemma step_next_not_END:
  assumes st: "step sv n nd s = Inr (u, s', nd')" and "\<not> terminal nd" and "nd \<noteq> END"
  shows "nd' \<noteq> END \<and> answer u = None \<and> answer s' = answer s \<and> retries_of s \<le> retries_of s'"
proof (cases nd)
  case classify_intent
  with st show ?thesis
    by (auto elim!: step_classify simp: retries_of_def split: if_splits)
next
  case generate_query
  with st show ?thesis by (auto elim!: step_generate simp: retries_of_def get_or_def)
next
  case execute_query
  from st[unfolded execute_query] show ?thesis
  proof (rule step_execute)
    fix r assume u: "u = no_keys\<lparr>result := Some r\<rparr>" and s': "s' = s\<lparr>result := Some r\<rparr>"
      and a: "py_in ''Error:'' r \<Longrightarrow>
           \<exists>k. retries s = Some k \<and> nd' = (if k > 7 then handle_error else generate_query)"
      and b: "\<not> py_in ''Error:'' r \<Longrightarrow> nd' = summarize_result"
    have "nd' \<noteq> END" using a b by (cases "py_in ''Error:'' r") (auto split: if_splits)
    with u s' show ?thesis by (simp add: retries_of_def)
  qed
qed (use assms in simp_all)

lemma step_terminal_facts:
  assumes st: "step sv n nd s = Inr (u, s', nd')" and "terminal nd"
  shows "nd' = END \<and> answer u \<noteq> None \<and> answer s' = answer u \<and> retries_of s' = retries_of s"
  using st assms(2) by (rule step_terminal) (simp add: retries_of_def)

lemma run_from_END_iff: "run_from sv n END s = Inr (tr, sf) \<longleftrightarrow> tr = [] \<and> sf = s"
  by (auto simp: run_from_END)

lemma run_trace_shape:
  assumes "run_from sv n nd s = Inr (tr, sf)"
  shows "if nd = END then tr = [] \<and> sf = s
         else tr \<noteq> [] \<and> fst (hd tr) = nd \<and> terminal (fst (last tr)) \<and>
              (\<forall>e \<in> set (butlast tr). \<not> terminal (fst e)) \<and> sf = snd (snd (last tr))"
  using assms
proof (induction rule: run_from_trace_induct)
  case (END n s)
  show ?case by simp
next
  case (step n nd s u s' nd' tr sf)
  show ?case
  proof (cases "terminal nd")
    case True
    with step.hyps(2) have "nd' = END" by (simp add: step_terminal_facts)
    with step.IH have "tr = []" and "sf = s'" by simp_all
    with True step.hyps(1) show ?thesis by simp
  next
    case False
    with step.hyps have "nd' \<noteq> END" by (simp add: step_next_not_END)
    with step.IH False step.hyps(1) show ?thesis by auto
  qed
qed

lemma run_answer_writes:
  assumes "run_from sv n nd s = Inr (tr, sf)"
  shows "(\<forall>e \<in> set tr. writes_answer e = terminal (fst e)) \<and>
         (\<forall>e \<in> set tr. \<not> terminal (fst e) \<longrightarrow> answer (snd (snd e)) = answer s)"
  using assms
proof (induction rule: run_from_trace_induct)
  case (END n s)
  show ?case by simp
next
  case (step n nd s u s' nd' tr sf)
  show ?case
  proof (cases "terminal nd")
    case True
    with step.hyps(2) have "nd' = END" and "answer u \<noteq> None" by (simp_all add: step_terminal_facts)
    with step.hyps(3) have "tr = []" by (simp add: run_from_END_iff)
    with True \<open>answer u \<noteq> None\<close> show ?thesis by (simp add: writes_answer_def)
  next
    case False
    with step.hyps have "answer u = None" and "answer s' = answer s"
      by (simp_all add: step_next_not_END)
    with step.IH False show ?thesis by (simp add: writes_answer_def)
  qed
qed

lemma run_retries_sorted:
  assumes "run_from sv n nd s = Inr (tr, sf)"
  shows "sorted (map retries_of (s # states_after tr))"
  using assms
proof (induction rule: run_from_trace_induct)
  case (END n s)
  show ?case by (simp add: states_after_def)
next
  case (step n nd s u s' nd' tr sf)
  from step.hyps(1,2) have "retries_of s \<le> retries_of s'"
    by (cases "terminal nd") (simp_all add: step_terminal_facts step_next_not_END)
  with step.IH show ?case by (auto simp: states_after_def)
qed


text \<open>
  What is left of the budget at a node, for the value of \<open>retries\<close> there: how many
  more times the generator can run, and how far \<open>retries\<close> can still rise.
\<close>

fun gen_bound :: "node \<Rightarrow> int \<Rightarrow> nat" where
  "gen_bound generate_query r = 1 + nat (7 - r)"
| "gen_bound classify_intent r = 1 + nat (7 - r)"
| "gen_bound execute_query r = nat (8 - r)"
| "gen_bound nd r = 0"

fun retries_bound :: "node \<Rightarrow> int \<Rightarrow> int" where
  "retries_bound generate_query r = max 8 (r + 1)"
| "retries_bound classify_intent r = max 8 (r + 1)"
| "retries_bound execute_query r = max 8 r"
| "retries_bound nd r = r"

definition generations :: "trace \<Rightarrow> nat" where
  "generations tr = length (filter (\<lambda>e. fst e = generate_query) tr)"

lemma step_bounds:
  assumes st: "step sv n nd s = Inr (u, s', nd')" and "nd \<noteq> END"
  shows "(if nd = generate_query then 1 else 0) + gen_bound nd' (retries_of s')
           \<le> gen_bound nd (retries_of s) \<and>
         retries_bound nd' (retries_of s') \<le> retries_bound nd (retries_of s) \<and>
         retries_of s' \<le> retries_bound nd (retries_of s)"
proof (cases nd)
  case classify_intent
  with st show ?thesis
    by (auto elim!: step_classify simp: retries_of_def split: if_splits)
next
  case generate_query
  with st show ?thesis by (auto elim!: step_generate simp: retries_of_def get_or_def)
next
  case execute_query
  from st[unfolded execute_query] show ?thesis
  proof (rule step_execute)
    fix r assume s': "s' = s\<lparr>result := Some r\<rparr>"
      and a: "py_in ''Error:'' r \<Longrightarrow>
           \<exists>k. retries s = Some k \<and> nd' = (if k > 7 then handle_error else generate_query)"
      and b: "\<not> py_in ''Error:'' r \<Longrightarrow> nd' = summarize_result"
    show ?thesis
    proof (cases "py_in ''Error:'' r")
      case True
      from a[OF True] s' execute_query show ?thesis
        by (auto simp: retries_of_def get_or_def)
    next
      case False
      from b[OF False] s' execute_query show ?thesis by (simp add: retries_of_def)
    qed
  qed
next
  case END
  with assms show ?thesis by simp
next
  case handle_conversation
  with st show ?thesis by (auto elim!: step_terminal simp: terminal_def retries_of_def)
next
  case summarize_result
  with st show ?thesis by (auto elim!: step_terminal simp: terminal_def retries_of_def)
next
  case handle_error
  with st show ?thesis by (auto elim!: step_terminal simp: terminal_def retries_of_def)
qed

lemma run_generations_bound:
  assumes "run_from sv n nd s = Inr (tr, sf)"
  shows "generations tr \<le> gen_bound nd (retries_of s)"
  using assms
proof (induction rule: run_from_trace_induct)
  case (END n s)
  show ?case by (simp add: generations_def)
next
  case (step n nd s u s' nd' tr sf)
  from step_bounds[OF step.hyps(2,1)] step.IH show ?case
    by (auto simp: generations_def)
qed

lemma run_retries_bound:
  assumes "run_from sv n nd s = Inr (tr, sf)"
  shows "\<forall>t \<in> set (states_after tr). retries_of t \<le> retries_bound nd (retries_of s)"
  using assms
proof (induction rule: run_from_trace_induct)
  case (END n s)
  show ?case by (simp add: states_after_def)
next
  case (step n nd s u s' nd' tr sf)
  from step_bounds[OF step.hyps(2,1)] step.IH show ?case
    by (auto simp: states_after_def)
qed

text \<open>The keys a node reads with a subscript are present when the graph reaches it.\<close>

definition keys_ready :: "node \<Rightarrow> AgentState \<Rightarrow> bool" where
  "keys_ready nd s = (question s \<noteq> None \<and>
     (nd = execute_query \<longrightarrow> query s \<noteq> None \<and> retries s \<noteq> None) \<and>
     (nd = summarize_result \<longrightarrow> query s \<noteq> None \<and> result s \<noteq> None) \<and>
     (nd = handle_error \<longrightarrow> query s \<noteq> None))"

lemma step_defined:
  assumes "keys_ready nd s"
  shows "\<exists>x. step sv n nd s = Inr x"
proof -
  from assms obtain q where q: "question s = Some q" by (auto simp: keys_ready_def)
  show ?thesis
  proof (cases nd)
    case classify_intent
    with q show ?thesis
      by (simp add: step_def classify_intent_node_def subscript_def Let_def
          apply_update_no_keys_upd edge_classify del: edge.simps)
  next
    case generate_query
    with q show ?thesis
      by (simp add: step_def generate_query_node_def subscript_def Let_def)
  next
    case execute_query
    with assms obtain qu k where "query s = Some qu" "retries s = Some k"
      by (auto simp: keys_ready_def)
    with execute_query show ?thesis
      by (simp add: step_def execute_query_node_def subscript_def Let_def
          apply_update_no_keys_upd edge_execute del: edge.simps)
  next
    case handle_conversation
    with q show ?thesis
      by (simp add: step_def handle_conversation_node_def subscript_def Let_def)
  next
    case summarize_result
    with assms obtain qu r where "query s = Some qu" "result s = Some r"
      by (auto simp: keys_ready_def)
    with summarize_result q show ?thesis
      by (simp add: step_def summarize_result_node_def subscript_def Let_def)
  next
    case handle_error
    with assms obtain qu where "query s = Some qu" by (auto simp: keys_ready_def)
    with handle_error q show ?thesis
      by (simp add: step_def handle_error_node_def subscript_def Let_def)
  next
    case END
    then show ?thesis by (simp add: step_def Let_def)
  qed
qed

lemma step_keys_ready:
  assumes st: "step sv n nd s = Inr (u, s', nd')" and "keys_ready nd s" and "nd \<noteq> END"
  shows "keys_ready nd' s'"
proof (cases nd)
  case classify_intent
  with st assms(2) show ?thesis
    by (auto elim!: step_classify simp: keys_ready_def split: if_splits)
next
  case generate_query
  with st assms(2) show ?thesis by (auto elim!: step_generate simp: keys_ready_def)
next
  case execute_query
  from st[unfolded execute_query] show ?thesis
  proof (rule step_execute)
    fix r assume s': "s' = s\<lparr>result := Some r\<rparr>" and "query s \<noteq> None"
    with assms(2) execute_query show ?thesis by (simp add: keys_ready_def)
  qed
next
  case END
  with assms(3) show ?thesis by simp
next
  case handle_conversation
  with st assms(2) show ?thesis by (auto elim!: step_terminal simp: terminal_def keys_ready_def)
next
  case summarize_result
  with st assms(2) show ?thesis by (auto elim!: step_terminal simp: terminal_def keys_ready_def)
next
  case handle_error
  with st assms(2) show ?thesis by (auto elim!: step_terminal simp: terminal_def keys_ready_def)
qed

lemma run_from_defined:
  "keys_ready nd s \<Longrightarrow> \<exists>tr sf. run_from sv n nd s = Inr (tr, sf)"
proof (induction sv n nd s rule: run_from.induct)
  case (1 sv n nd s)
  show ?case
  proof (cases "nd = END")
    case True
    then show ?thesis by (simp add: run_from_END)
  next
    case False
    from step_defined[OF "1.prems"] obtain u s' nd' where
      st: "step sv n nd s = Inr (u, s', nd')" by (metis prod_cases3)
    from step_keys_ready[OF st "1.prems" False] have "keys_ready nd' s'" .
    from "1.IH"[OF False st refl refl this] obtain tr sf where
      "run_from sv (Suc n) nd' s' = Inr (tr, sf)" by blast
    from run_from_step[OF False st this] show ?thesis by blast
  qed
qed

text \<open>A result that holds the marker nowhere goes to the summarizer; \<open>retries\<close> is not read.\<close>

lemma router_no_marker_summarizes:
  assumes "result s = Some r" and "\<not> py_in ''Error:'' r"
  shows "decide_result_status s = Inr ''summarize_result'' \<and>
    edge execute_query s = Inr summarize_result"
  using assms
  by (simp add: edge_execute del: edge.simps) (simp add: decide_result_status_def subscript_def)

section \<open>Instances of the services, and two runs\<close>

text \<open>Services whose classifier selects no tool.\<close>

definition chatty :: services where
  "chatty = \<lparr>classify_llm = (\<lambda>n q h. []),
     agent_executor = (\<lambda>n q h. ''It is 2026-11-04T10:00:00''),
     get_table_info = (\<lambda>n. ''CREATE TABLE t (a INTEGER)''),
     generate_llm = (\<lambda>n rep q h sch err. ''SELECT a FROM t''),
     execute_query_tool = (\<lambda>n q. ''[(3,)]''),
     summarizer_llm = (\<lambda>n q qu r. ''summary''),
     error_llm = (\<lambda>n q qu e. ''sorry'')\<rparr>"

lemma step_failing_classify:
  "question s = Some q \<Longrightarrow> step failing n classify_intent s =
     Inr (no_keys\<lparr>intent := Some ''DatabaseQuery''\<rparr>, s\<lparr>intent := Some ''DatabaseQuery''\<rparr>, generate_query)"
  by (simp add: step_def classify_intent_node_def subscript_def failing_def Let_def
      apply_update_no_keys_upd edge_classify del: edge.simps)

lemma sql_failing:
  "py_strip (py_replace (py_replace (py_strip ''```sql SELECT x FROM t```'') ''```sql'' []) ''```'' [])
    = ''SELECT x FROM t''"
  by (simp add: py_strip_def py_replace_def py_isspace_def)

lemma step_failing_generate:
  "question s = Some q \<Longrightarrow> step failing n generate_query s =
     Inr (no_keys\<lparr>query := Some ''SELECT x FROM t'', retries := Some (get_or (retries s) 0 + 1)\<rparr>,
          s\<lparr>query := Some ''SELECT x FROM t'', retries := Some (get_or (retries s) 0 + 1)\<rparr>,
          execute_query)"
  by (simp add: step_def generate_query_node_def subscript_def failing_def Let_def
      apply_update_no_keys_upd sql_failing)

lemma step_failing_execute:
  "query s = Some q \<Longrightarrow> retries s = Some k \<Longrightarrow> step failing n execute_query s =
     Inr (no_keys\<lparr>result := Some ''Error: no such column: x''\<rparr>,
          s\<lparr>result := Some ''Error: no such column: x''\<rparr>,
          if k > 7 then handle_error else generate_query)"
  by (simp add: step_def execute_query_node_def subscript_def failing_def Let_def
      apply_update_no_keys_upd edge_execute del: edge.simps)

lemma step_failing_handle_error:
  "question s = Some q \<Longrightarrow> query s = Some qu \<Longrightarrow> step failing n handle_error s =
     Inr (no_keys\<lparr>answer := Some ''sorry''\<rparr>, s\<lparr>answer := Some ''sorry''\<rparr>, END)"
  by (simp add: step_def handle_error_node_def subscript_def failing_def Let_def
      apply_update_no_keys_upd)

lemma failing_run_nodes:
  "map fst (fst (projr (graph_invoke failing initial_state))) =
    [classify_intent, generate_query, execute_query, generate_query, execute_query,
     generate_query, execute_query, generate_query, execute_query, generate_query,
     execute_query, generate_query, execute_query, generate_query, execute_query,
     generate_query, execute_query, handle_error]"
  by (simp add: graph_invoke_def run_from_unfold run_from_END initial_state_def
      step_failing_classify step_failing_generate step_failing_execute step_failing_handle_error
      get_or_def)

lemma failing_run_visited:
  "graph_invoke failing initial_state = Inr (tr, sf) \<Longrightarrow> visited tr =
    [classify_intent, generate_query, execute_query, generate_query, execute_query,
     generate_query, execute_query, generate_query, execute_query, generate_query,
     execute_query, generate_query, execute_query, generate_query, execute_query,
     generate_query, execute_query, handle_error]"
  using failing_run_nodes by (simp add: visited_def)

lemma initial_state_keys:
  "question initial_state = Some ''Aaj kya date?''" "retries initial_state = None"
  by (simp_all add: initial_state_def)

lemma graph_invoke_defined:
  "question s0 = Some q \<Longrightarrow> \<exists>tr sf. graph_invoke sv s0 = Inr (tr, sf)"
  unfolding graph_invoke_def by (rule run_from_defined) (simp add: keys_ready_def)

lemma terminal_only_last:
  assumes "tr \<noteq> []" and "\<forall>e \<in> set (butlast tr). \<not> terminal (fst e)"
    and "tr = pre @ e # post" and "terminal (fst e)"
  shows "post = [] \<and> (\<forall>x \<in> set pre. \<not> terminal (fst x))"
proof -
  have "post = []"
  proof (rule ccontr)
    assume "post \<noteq> []"
    with assms(3) have "e \<in> set (butlast tr)" by (simp add: butlast_append)
    with assms(2,4) show False by blast
  qed
  with assms(2,3) show ?thesis by (simp add: butlast_append)
qed

lemma generations_visited: "generations tr = length (filter (\<lambda>nd. nd = generate_query) (visited tr))"
  by (simp add: generations_def visited_def filter_map comp_def)

lemma over_simps [simp]: "over x None = x" "over x (Some v) = Some v"
  by (simp_all add: over_def)

lemma apply_update_sel [simp]:
  "question (apply_update s u) = over (question s) (question u)"
  "chat_history (apply_update s u) = over (chat_history s) (chat_history u)"
  "query (apply_update s u) = over (query s) (query u)"
  "result (apply_update s u) = over (result s) (result u)"
  "answer (apply_update s u) = over (answer s) (answer u)"
  "retries (apply_update s u) = over (retries s) (retries u)"
  "intent (apply_update s u) = over (intent s) (intent u)"
  by (simp_all add: apply_update_def)

lemma filter_only_last:
  assumes "tr \<noteq> []" and "\<forall>e \<in> set (butlast tr). \<not> P e" and "P (last tr)"
  shows "filter P tr = [last tr]"
proof -
  have "tr = butlast tr @ [last tr]" using assms(1) by simp
  then have "filter P tr = filter P (butlast tr) @ filter P [last tr]"
    by (metis filter_append)
  with assms(2,3) show ?thesis by (simp add: filter_empty_conv)
qed

text \<open>
  Services whose query tool succeeds every time, with rows one cell of which holds the
  text \<open>Error: timeout\<close>.
\<close>

definition rows_with_marker :: services where
  "rows_with_marker = \<lparr>classify_llm = (\<lambda>n q h. [\<lparr>tc_name = ''DatabaseQuery'', tc_args = ''{}''\<rparr>]),
     agent_executor = (\<lambda>n q h. ''hello''),
     get_table_info = (\<lambda>n. ''CREATE TABLE log (note TEXT)''),
     generate_llm = (\<lambda>n rep q h sch err. ''SELECT note FROM log''),
     execute_query_tool = (\<lambda>n q. ''[('Error: timeout',)]''),
     summarizer_llm = (\<lambda>n q qu r. ''summary''),
     error_llm = (\<lambda>n q qu e. ''sorry'')\<rparr>"

lemma step_marker_classify:
  "question s = Some q \<Longrightarrow> step rows_with_marker n classify_intent s =
     Inr (no_keys\<lparr>intent := Some ''DatabaseQuery''\<rparr>, s\<lparr>intent := Some ''DatabaseQuery''\<rparr>, generate_query)"
  by (simp add: step_def classify_intent_node_def subscript_def rows_with_marker_def Let_def
      apply_update_no_keys_upd edge_classify del: edge.simps)

lemma sql_marker:
  "py_strip (py_replace (py_replace (py_strip ''SELECT note FROM log'') ''```sql'' []) ''```'' [])
    = ''SELECT note FROM log''"
  by (simp add: py_strip_def py_replace_def py_isspace_def)

lemma step_marker_generate:
  "question s = Some q \<Longrightarrow> step rows_with_marker n generate_query s =
     Inr (no_keys\<lparr>query := Some ''SELECT note FROM log'', retries := Some (get_or (retries s) 0 + 1)\<rparr>,
          s\<lparr>query := Some ''SELECT note FROM log'', retries := Some (get_or (retries s) 0 + 1)\<rparr>,
          execute_query)"
  by (simp add: step_def generate_query_node_def subscript_def rows_with_marker_def Let_def
      apply_update_no_keys_upd sql_marker)

lemma step_marker_execute:
  "query s = Some q \<Longrightarrow> retries s = Some k \<Longrightarrow> step rows_with_marker n execute_query s =
     Inr (no_keys\<lparr>result := Some ''[('Error: timeout',)]''\<rparr>,
          s\<lparr>result := Some ''[('Error: timeout',)]''\<rparr>,
          if k > 7 then handle_error else generate_query)"
  by (simp add: step_def execute_query_node_def subscript_def rows_with_marker_def Let_def
      apply_update_no_keys_upd edge_execute del: edge.simps)

lemma step_marker_handle_error:
  "question s = Some q \<Longrightarrow> query s = Some qu \<Longrightarrow> step rows_with_marker n handle_error s =
     Inr (no_keys\<lparr>answer := Some ''sorry''\<rparr>, s\<lparr>answer := Some ''sorry''\<rparr>, END)"
  by (simp add: step_def handle_error_node_def subscript_def rows_with_marker_def Let_def
      apply_update_no_keys_upd)

lemma marker_run_nodes:
  "map fst (fst (projr (graph_invoke rows_with_marker initial_state))) =
    [classify_intent, generate_query, execute_query, generate_query, execute_query,
     generate_query, execute_query, generate_query, execute_query, generate_query,
     execute_query, generate_query, execute_query, generate_query, execute_query,
     generate_query, execute_query, handle_error]"
  by (simp add: graph_invoke_def run_from_unfold run_from_END initial_state_def
      step_marker_classify step_marker_generate step_marker_execute step_marker_handle_error
      get_or_def)

section \<open>The ingestion script (script.py): Python values and the builtins it calls\<close>

text \<open>
  A sheet arrives as parsed JSON: a dict from table names to lists of rows, a row a
  dict from column names to cells. Dicts keep the order of insertion, so they are
  association lists (of distinct keys). A cell is a string, an integer, a boolean or
  null; a float, a list or a nested dict is kept as the text \<open>str()\<close> gives for it.
\<close>

datatype py_value = PStr string | PInt int | PBool bool | PNone | PRepr string

type_synonym row = "(string \<times> py_value) list"

definition digit_char :: "nat \<Rightarrow> char" where
  "digit_char d = char_of (48 + d)"

fun str_nat :: "nat \<Rightarrow> string" where
  "str_nat n = (if n < 10 then [digit_char n] else str_nat (n div 10) @ [digit_char (n mod 10)])"

definition str_int :: "int \<Rightarrow> string" where
  "str_int i = (if i < 0 then CHR ''-'' # str_nat (nat (- i)) else str_nat (nat i))"

fun py_str :: "py_value \<Rightarrow> string" where
  "py_str (PStr s) = s"
| "py_str (PInt i) = str_int i"
| "py_str (PBool b) = (if b then ''True'' else ''False'')"
| "py_str PNone = ''None''"
| "py_str (PRepr s) = s"

text \<open>\<open>row.get(col, default)\<close> and \<open>row.keys()\<close>.\<close>

definition dict_get :: "row \<Rightarrow> string \<Rightarrow> py_value \<Rightarrow> py_value" where
  "dict_get r col d = (case map_of r col of None \<Rightarrow> d | Some v \<Rightarrow> v)"

definition keys :: "row \<Rightarrow> string list" where
  "keys r = map fst r"

text \<open>
  \<open>str.isdigit\<close>: the string is not empty and each character has the Unicode property
  Numeric_Type Digit or Decimal. Below 256 these are the ten ASCII digits and the
  superscript digits two, three and one (B2, B3, B9).
\<close>

definition ascii_digit :: "char \<Rightarrow> bool" where
  "ascii_digit c = (48 \<le> (of_char c :: nat) \<and> (of_char c :: nat) \<le> 57)"

definition digit_character :: "char \<Rightarrow> bool" where
  "digit_character c = (ascii_digit c \<or> of_char c \<in> {178, 179, 185 :: nat})"

definition isdigit :: "string \<Rightarrow> bool" where
  "isdigit s = (s \<noteq> [] \<and> list_all digit_character s)"

text \<open>
  \<open>str.isalnum\<close> on one character: letters, digits and the other numeric characters
  below 256.
\<close>

definition isalnum_char :: "char \<Rightarrow> bool" where
  "isalnum_char c = (let n = (of_char c :: nat) in
     (48 \<le> n \<and> n \<le> 57) \<or> (65 \<le> n \<and> n \<le> 90) \<or> (97 \<le> n \<and> n \<le> 122) \<or>
     n \<in> {170, 178, 179, 181, 185, 186, 188, 189, 190} \<or>
     (192 \<le> n \<and> n \<le> 214) \<or> (216 \<le> n \<and> n \<le> 246) \<or> 248 \<le> n)"

text \<open>
  \<open>float(value)\<close> on a string, as CPython reads it; the model keeps whether it returns
  or raises \<open>ValueError\<close>. The non-ASCII whitespace (85 and A0 below 256) becomes a
  blank and any other non-ASCII character makes the text unreadable; an underscore must
  stand between two digits; ASCII whitespace is stripped at both ends; what is left is
  an optional sign and either \<open>inf\<close>, \<open>infinity\<close> or \<open>nan\<close> in any case, or digits
  with an optional point and an optional exponent, at least one digit before the
  exponent.
\<close>

definition ascii_space :: "char \<Rightarrow> bool" where
  "ascii_space c = (of_char c \<in> {9, 10, 11, 12, 13, 32 :: nat})"

definition space_to_ascii :: "char \<Rightarrow> char" where
  "space_to_ascii c = (if of_char c \<in> {133, 160 :: nat} then CHR '' '' else c)"

fun underscores_ok :: "char \<Rightarrow> string \<Rightarrow> bool" where
  "underscores_ok prev [] = (prev \<noteq> CHR ''_'')"
| "underscores_ok prev (c # cs) =
     (if c = CHR ''_'' then ascii_digit prev \<and> underscores_ok c cs
      else if prev = CHR ''_'' then ascii_digit c \<and> underscores_ok c cs
      else underscores_ok c cs)"

definition drop_sign :: "string \<Rightarrow> string" where
  "drop_sign s = (case s of [] \<Rightarrow> [] | c # cs \<Rightarrow> if c = CHR ''+'' \<or> c = CHR ''-'' then cs else s)"

definition to_lower :: "char \<Rightarrow> char" where
  "to_lower c = (let n = (of_char c :: nat) in if 65 \<le> n \<and> n \<le> 90 then char_of (n + 32) else c)"

definition exponent_ok :: "string \<Rightarrow> bool" where
  "exponent_ok s = (case s of [] \<Rightarrow> True
     | e # ds \<Rightarrow> (e = CHR ''e'' \<or> e = CHR ''E'') \<and> drop_sign ds \<noteq> [] \<and> list_all ascii_digit (drop_sign ds))"

definition float_literal :: "string \<Rightarrow> bool" where
  "float_literal s =
     (let t = drop_sign s; l = map to_lower t in
      if l = ''inf'' \<or> l = ''infinity'' \<or> l = ''nan'' then True
      else (let int_part = takeWhile ascii_digit t; r = dropWhile ascii_digit t in
            case r of
              [] \<Rightarrow> int_part \<noteq> []
            | c # f \<Rightarrow>
                if c = CHR ''.''
                then (int_part \<noteq> [] \<or> takeWhile ascii_digit f \<noteq> []) \<and>
                     exponent_ok (dropWhile ascii_digit f)
                else int_part \<noteq> [] \<and> exponent_ok r))"

definition float_parses :: "string \<Rightarrow> bool" where
  "float_parses value =
     (let t = map space_to_ascii value in
      (if CHR ''_'' \<in> set t then underscores_ok (CHR 0x00) t else True) \<and>
      (let u = rev (dropWhile ascii_space (rev (dropWhile ascii_space
                 (filter (\<lambda>c. c \<noteq> CHR ''_'') t))))
       in u \<noteq> [] \<and> float_literal u))"

section \<open>Type inference and the statements sent to SQLite\<close>

text \<open>
  The inner loop of \<open>infer_column_types\<close> over the rows, for one column: the two flags
  are the loop's state, and the \<open>break\<close> leaves the loop once both are \<open>False\<close>.
\<close>

definition integer_pattern :: "string \<Rightarrow> bool" where
  "integer_pattern value = (isdigit value \<or> (startswith value ''-'' \<and> isdigit (drop 1 value)))"

fun scan_column :: "string \<Rightarrow> row list \<Rightarrow> bool \<times> bool \<Rightarrow> bool \<times> bool" where
  "scan_column col [] (is_integer, is_real) = (is_integer, is_real)"
| "scan_column col (r # rows) (is_integer, is_real) =
     (let value = py_str (dict_get r col (PStr ''''))
      in if value = '''' then scan_column col rows (is_integer, is_real)
         else
           (let is_integer' = (if is_integer \<and> \<not> integer_pattern value then False else is_integer);
                is_real' = (if is_real \<and> \<not> is_integer'
                            then (if float_parses value then is_real else False)
                            else is_real)
            in if \<not> is_integer' \<and> \<not> is_real' then (is_integer', is_real')
               else scan_column col rows (is_integer', is_real')))"

definition column_type :: "bool \<times> bool \<Rightarrow> string" where
  "column_type flags = (if fst flags then ''INTEGER'' else if snd flags then ''REAL'' else ''TEXT'')"

definition infer_column_types :: "row list \<Rightarrow> (string \<times> string) list" where
  "infer_column_types rows =
     (case rows of
        [] \<Rightarrow> []
      | first # _ \<Rightarrow>
          (let columns = filter (\<lambda>col. col \<noteq> '''') (keys first)
           in map (\<lambda>col. (col, column_type (scan_column col rows (True, True)))) columns))"

text \<open>
  SQLite is outside the repository. The connection is a value of a type \<open>'db\<close> that
  the \<open>sqlite3\<close> module turns into the next one at each call; each call either
  returns or raises. \<open>conn.close()\<close> is taken to return.
\<close>

datatype sqlite_error = SqliteError string

record 'db sqlite3 =
  connect :: "string \<Rightarrow> sqlite_error + 'db"
  execute :: "'db \<Rightarrow> string \<Rightarrow> sqlite_error + 'db"
  executemany :: "'db \<Rightarrow> string \<Rightarrow> py_value list list \<Rightarrow> sqlite_error + 'db"
  commit :: "'db \<Rightarrow> sqlite_error + 'db"
  close :: "'db \<Rightarrow> 'db"

fun join :: "string \<Rightarrow> string list \<Rightarrow> string" where
  "join sep [] = []"
| "join sep [x] = x"
| "join sep (x # y # ys) = x @ sep @ join sep (y # ys)"

text \<open>The f-string that puts a name between double quotes; the name is not escaped.\<close>

definition quoted :: "string \<Rightarrow> string" where
  "quoted c = [CHR 0x22] @ c @ [CHR 0x22]"

text \<open>
  The body of the loop over \<open>data.items()\<close>, for one sheet and the connection as it
  is. A raise of the cursor leaves the function: the result is then the error and the
  connection as it was left, neither committed nor closed.
\<close>

definition write_sheet ::
  "'db sqlite3 \<Rightarrow> 'db \<Rightarrow> string \<times> row list \<Rightarrow> (sqlite_error \<times> 'db) + 'db" where
  "write_sheet sq db sheet =
     (case sheet of (table_name, rows) \<Rightarrow>
      (case rows of
         [] \<Rightarrow> Inr db
       | first # _ \<Rightarrow>
           (let columns = filter (\<lambda>col. col \<noteq> '''') (keys first) in
            if columns = [] then Inr db
            else
              (let sanitized_table_name = filter isalnum_char table_name;
                   column_types = infer_column_types rows;
                   column_definitions =
                     join '', '' (map (\<lambda>(col, col_type). quoted col @ '' '' @ col_type) column_types)
               in case execute sq db (''DROP TABLE IF EXISTS '' @ sanitized_table_name) of
                    Inl e \<Rightarrow> Inl (e, db)
                  | Inr db1 \<Rightarrow>
                      (case execute sq db1 (''CREATE TABLE '' @ sanitized_table_name @ '' (''
                                              @ column_definitions @ '')'') of
                         Inl e \<Rightarrow> Inl (e, db1)
                       | Inr db2 \<Rightarrow>
                           (let placeholders = join '', '' (replicate (length columns) ''?'');
                                quoted_columns = join '', '' (map quoted columns);
                                insert_sql = ''INSERT INTO '' @ sanitized_table_name @ '' (''
                                  @ quoted_columns @ '') VALUES ('' @ placeholders @ '')'';
                                values_to_insert =
                                  map (\<lambda>r. map (\<lambda>col. dict_get r col PNone) columns) rows
                            in case executemany sq db2 insert_sql values_to_insert of
                                 Inl e \<Rightarrow> Inl (e, db2)
                               | Inr db3 \<Rightarrow> Inr db3))))))"

fun write_sheets ::
  "'db sqlite3 \<Rightarrow> 'db \<Rightarrow> (string \<times> row list) list \<Rightarrow> (sqlite_error \<times> 'db) + 'db" where
  "write_sheets sq db [] = Inr db"
| "write_sheets sq db (sheet # sheets) =
     (case write_sheet sq db sheet of
        Inl x \<Rightarrow> Inl x
      | Inr db' \<Rightarrow> write_sheets sq db' sheets)"

text \<open>
  \<open>write_to_sqlite(data, db_name)\<close>. \<open>Inr None\<close>: nothing to write, no connection
  made. \<open>Inr (Some db)\<close>: every sheet written, committed, closed. \<open>Inl (e, c)\<close>: the
  call raised \<open>e\<close>; \<open>c\<close> is the connection it leaves behind, \<open>None\<close> if
  \<open>connect\<close> itself raised.
\<close>

definition write_to_sqlite ::
  "'db sqlite3 \<Rightarrow> (string \<times> row list) list \<Rightarrow> string \<Rightarrow> (sqlite_error \<times> 'db option) + 'db option" where
  "write_to_sqlite sq data db_name =
     (if data = [] then Inr None
      else case connect sq db_name of
             Inl e \<Rightarrow> Inl (e, None)
           | Inr conn \<Rightarrow>
               (case write_sheets sq conn data of
                  Inl (e, c) \<Rightarrow> Inl (e, Some c)
                | Inr c \<Rightarrow>
                    (case commit sq c of
                       Inl e \<Rightarrow> Inl (e, Some c)
                     | Inr c' \<Rightarrow> Inr (Some (close sq c')))))"

section \<open>The calls a sheet gives rise to, and a database that records them\<close>

datatype sql_call = Connect string | Execute string | ExecuteMany string "py_value list list"
  | Commit | Close

text \<open>The statements of the loop body for one sheet, in the order the body sends them.\<close>

definition sheet_columns :: "row list \<Rightarrow> string list" where
  "sheet_columns rows = (case rows of [] \<Rightarrow> [] | first # _ \<Rightarrow> filter (\<lambda>col. col \<noteq> '''') (keys first))"

definition drop_table_sql :: "string \<Rightarrow> string" where
  "drop_table_sql table_name = ''DROP TABLE IF EXISTS '' @ filter isalnum_char table_name"

definition create_table_sql :: "string \<Rightarrow> row list \<Rightarrow> string" where
  "create_table_sql table_name rows =
     ''CREATE TABLE '' @ filter isalnum_char table_name @ '' (''
       @ join '', '' (map (\<lambda>col. quoted col @ '' '' @ column_type (scan_column col rows (True, True)))
                      (sheet_columns rows))
       @ '')''"

definition insert_sql :: "string \<Rightarrow> row list \<Rightarrow> string" where
  "insert_sql table_name rows =
     ''INSERT INTO '' @ filter isalnum_char table_name @ '' (''
       @ join '', '' (map quoted (sheet_columns rows))
       @ '') VALUES ('' @ join '', '' (replicate (length (sheet_columns rows)) ''?'') @ '')''"

definition inserted_rows :: "row list \<Rightarrow> py_value list list" where
  "inserted_rows rows = map (\<lambda>r. map (\<lambda>col. dict_get r col PNone) (sheet_columns rows)) rows"

definition sheet_calls :: "string \<times> row list \<Rightarrow> sql_call list" where
  "sheet_calls sheet =
     (if sheet_columns (snd sheet) = [] then []
      else [Execute (drop_table_sql (fst sheet)),
            Execute (create_table_sql (fst sheet) (snd sheet)),
            ExecuteMany (insert_sql (fst sheet) (snd sheet)) (inserted_rows (snd sheet))])"

text \<open>Handing calls to the module one after the other, up to the first that raises.\<close>

fun send :: "'db sqlite3 \<Rightarrow> 'db \<Rightarrow> sql_call \<Rightarrow> sqlite_error + 'db" where
  "send sq db (Connect n) = connect sq n"
| "send sq db (Execute sql) = execute sq db sql"
| "send sq db (ExecuteMany sql vs) = executemany sq db sql vs"
| "send sq db Commit = commit sq db"
| "send sq db Close = Inr (close sq db)"

fun send_all :: "'db sqlite3 \<Rightarrow> 'db \<Rightarrow> sql_call list \<Rightarrow> (sqlite_error \<times> 'db) + 'db" where
  "send_all sq db [] = Inr db"
| "send_all sq db (c # cs) =
     (case send sq db c of Inl e \<Rightarrow> Inl (e, db) | Inr db' \<Rightarrow> send_all sq db' cs)"

text \<open>
  A stand-in for SQLite whose connection is the list of the calls it has accepted; it
  raises on the calls that \<open>rejects\<close> picks.
\<close>

definition recording :: "(sql_call \<Rightarrow> bool) \<Rightarrow> (sql_call list) sqlite3" where
  "recording rejects =
     \<lparr>connect = (\<lambda>n. if rejects (Connect n) then Inl (SqliteError ''unable to open database file'')
                      else Inr [Connect n]),
      execute = (\<lambda>db sql. if rejects (Execute sql) then Inl (SqliteError sql)
                           else Inr (db @ [Execute sql])),
      executemany = (\<lambda>db sql vs. if rejects (ExecuteMany sql vs) then Inl (SqliteError sql)
                                  else Inr (db @ [ExecuteMany sql vs])),
      commit = (\<lambda>db. if rejects Commit then Inl (SqliteError ''commit'') else Inr (db @ [Commit])),
      close = (\<lambda>db. db @ [Close])\<rparr>"

definition rejects_nothing :: "sql_call \<Rightarrow> bool" where
  "rejects_nothing c = False"

definition rejects_insert :: "sql_call \<Rightarrow> bool" where
  "rejects_insert c = (case c of ExecuteMany sql vs \<Rightarrow> True | _ \<Rightarrow> False)"

section \<open>Facts about the type inference\<close>

text \<open>The text of a cell as the inner loop reads it, and the values of a column it does not skip.\<close>

definition cell_text :: "string \<Rightarrow> row \<Rightarrow> string" where
  "cell_text col r = py_str (dict_get r col (PStr ''''))"

definition sampled :: "string \<Rightarrow> row list \<Rightarrow> string list" where
  "sampled col rows = filter (\<lambda>v. v \<noteq> '''') (map (cell_text col) rows)"

lemma scan_column_Cons:
  "scan_column col (r # rows) (i, f) =
     (if cell_text col r = [] then scan_column col rows (i, f)
      else if i \<and> integer_pattern (cell_text col r) then scan_column col rows (True, f)
      else if f \<and> float_parses (cell_text col r) then scan_column col rows (False, True)
      else (False, False))"
  by (simp add: cell_text_def Let_def)

declare scan_column.simps(2) [simp del]

lemma scan_column_Nil [simp]: "scan_column col [] st = st"
  by (cases st) simp

lemma scan_column_skip:
  "cell_text col r = [] \<Longrightarrow> scan_column col (r # rows) st = scan_column col rows st"
  by (cases st) (simp add: scan_column_Cons)

lemma scan_column_all_empty:
  "\<forall>r \<in> set rows. cell_text col r = [] \<Longrightarrow> scan_column col rows st = st"
  by (induction rows) (simp_all add: scan_column_skip)

lemma scan_column_filter:
  "scan_column col rows st = scan_column col (filter (\<lambda>r. cell_text col r \<noteq> []) rows) st"
proof (induction rows arbitrary: st)
  case Nil
  show ?case by simp
next
  case (Cons r rows)
  obtain i f where st: "st = (i, f)" by (cases st)
  show ?case
    using Cons.IH by (simp add: st scan_column_Cons)
qed

lemma scan_column_not_integer:
  "scan_column col rows (False, True) = (False, list_all float_parses (sampled col rows))"
proof (induction rows)
  case Nil
  show ?case by (simp add: sampled_def)
next
  case (Cons r rows)
  have "scan_column col rows (False, False) = (False, False)" for rows
    by (induction rows) (simp_all add: scan_column_Cons)
  with Cons show ?case
    by (simp add: scan_column_Cons sampled_def)
qed

lemma scan_column_flags:
  "scan_column col rows (True, True) =
     (if list_all integer_pattern (sampled col rows) then (True, True)
      else (False, list_all float_parses (dropWhile integer_pattern (sampled col rows))))"
proof (induction rows)
  case Nil
  show ?case by (simp add: sampled_def)
next
  case (Cons r rows)
  show ?case
  proof (cases "cell_text col r = []")
    case True
    with Cons show ?thesis by (simp add: scan_column_skip sampled_def)
  next
    case False
    show ?thesis
    proof (cases "integer_pattern (cell_text col r)")
      case True
      with False Cons show ?thesis
        by (simp add: scan_column_Cons sampled_def)
    next
      case ni: False
      have s: "sampled col (r # rows) = cell_text col r # sampled col rows"
        using False by (simp add: sampled_def)
      show ?thesis
        using False ni scan_column_not_integer[of col rows]
        by (simp add: scan_column_Cons s)
    qed
  qed
qed

lemma map_of_computed:
  "map_of (map (\<lambda>k. (k, f k)) xs) k = (if k \<in> set xs then Some (f k) else None)"
  by (induction xs) auto

lemma infer_column_types_lookup:
  assumes "rows = first # rest" and "col \<in> set (keys first)" and "col \<noteq> []"
  shows "map_of (infer_column_types rows) col = Some (column_type (scan_column col rows (True, True)))"
  using assms by (simp add: infer_column_types_def map_of_computed Let_def)

lemma infer_column_types_keys:
  "rows = first # rest \<Longrightarrow> map fst (infer_column_types rows) = filter (\<lambda>c. c \<noteq> []) (keys first)"
  by (simp add: infer_column_types_def Let_def comp_def)

lemma column_type_sampled:
  "column_type (scan_column col rows (True, True)) =
     (if list_all integer_pattern (sampled col rows) then ''INTEGER''
      else if list_all float_parses (dropWhile integer_pattern (sampled col rows)) then ''REAL''
      else ''TEXT'')"
  by (simp add: scan_column_flags column_type_def)

text \<open>If every value of the integer pattern is readable as a float, the order does not matter.\<close>

lemma column_type_when_integers_parse:
  assumes "\<forall>v \<in> set (sampled col rows). integer_pattern v \<longrightarrow> float_parses v"
  shows "column_type (scan_column col rows (True, True)) =
     (if list_all integer_pattern (sampled col rows) then ''INTEGER''
      else if list_all float_parses (sampled col rows) then ''REAL''
      else ''TEXT'')"
proof -
  have "list_all float_parses (dropWhile integer_pattern vs) = list_all float_parses vs"
    if "\<forall>v \<in> set vs. integer_pattern v \<longrightarrow> float_parses v" for vs
    using that by (induction vs) auto
  with assms show ?thesis by (simp add: column_type_sampled)
qed

text \<open>
  A value of the integer pattern made of ASCII characters is readable as a float, so on
  ASCII values the order of the rows does not matter.
\<close>

lemma takeWhile_all: "list_all P xs \<Longrightarrow> takeWhile P xs = xs \<and> dropWhile P xs = []"
  by (induction xs) auto

lemma signed_digits_float_literal:
  assumes "ds \<noteq> []" and "list_all ascii_digit ds" and "drop_sign s = ds"
  shows "float_literal s"
proof -
  obtain c cs where ds: "ds = c # cs" using assms(1) by (cases ds) auto
  with assms(2) have c: "ascii_digit c" by simp
  have lw: "to_lower c = c" using c by (auto simp: to_lower_def ascii_digit_def)
  have "c \<noteq> CHR ''i'' \<and> c \<noteq> CHR ''n''" using c by (auto simp: ascii_digit_def)
  with lw have n: "map to_lower ds \<noteq> ''inf''" "map to_lower ds \<noteq> ''infinity''"
    "map to_lower ds \<noteq> ''nan''"
    by (simp_all add: ds)
  have tw: "takeWhile ascii_digit ds = ds" and dw: "dropWhile ascii_digit ds = []"
    using takeWhile_all[OF assms(2)] by simp_all
  show ?thesis
    unfolding float_literal_def Let_def assms(3) tw dw using n assms(1) by simp
qed

lemma no_blank_no_strip:
  assumes "s \<noteq> []" and "\<not> ascii_space (hd s)" and "\<not> ascii_space (last s)"
  shows "rev (dropWhile ascii_space (rev (dropWhile ascii_space s))) = s"
proof -
  from assms(1,2) have d1: "dropWhile ascii_space s = s" by (cases s) simp_all
  from assms(1,3) have "dropWhile ascii_space (rev s) = rev s"
    by (cases "rev s") (simp_all add: last_rev[symmetric] hd_rev)
  with d1 show ?thesis by simp
qed

lemma ascii_integer_float_parses:
  assumes "integer_pattern v" and "\<forall>c \<in> set v. (of_char c :: nat) < 128"
  shows "float_parses v"
proof -
  have dg: "ascii_digit c" if "digit_character c" "c \<in> set v" for c
    using that assms(2) by (auto simp: digit_character_def)
  from assms(1) consider (plain) "isdigit v" | (minus) "startswith v ''-''" "isdigit (drop 1 v)"
    by (auto simp: integer_pattern_def)
  then obtain ds where ds: "ds \<noteq> []" "list_all digit_character ds"
    and v: "v = ds \<or> v = CHR ''-'' # ds"
  proof cases
    case plain
    then show ?thesis using that[of v] by (simp add: isdigit_def)
  next
    case minus
    from minus(1) obtain r where r: "v = CHR ''-'' # r"
      by (cases v) (auto simp: startswith_def)
    with minus(2) show ?thesis using that[of r] by (simp add: isdigit_def)
  qed
  from ds(2) v dg have ad: "list_all ascii_digit ds" by (auto simp: list_all_iff)
  have hd_ds: "ascii_digit (hd ds)" and last_ds: "ascii_digit (last ds)"
    using ds(1) ad by (auto simp: list_all_iff)
  have sgn: "drop_sign v = ds"
    using v hd_ds ds(1) by (cases ds) (auto simp: drop_sign_def ascii_digit_def)
  have chars: "\<forall>c \<in> set v. ascii_digit c \<or> c = CHR ''-''"
    using v ad by (auto simp: list_all_iff)
  have m: "map space_to_ascii v = v"
    using chars by (intro map_idI) (auto simp: space_to_ascii_def ascii_digit_def)
  have u: "CHR ''_'' \<notin> set v" using chars by (auto simp: ascii_digit_def)
  then have f: "filter (\<lambda>c. c \<noteq> CHR ''_'') v = v" by (auto simp: filter_id_conv)
  have ne: "v \<noteq> []" using v ds(1) by auto
  have ns: "\<forall>c \<in> set v. \<not> ascii_space c"
    using chars by (auto simp: ascii_digit_def ascii_space_def)
  have "\<not> ascii_space (hd v)" "\<not> ascii_space (last v)"
    using ns hd_in_set[OF ne] last_in_set[OF ne] by blast+
  from no_blank_no_strip[OF ne this] have st:
    "rev (dropWhile ascii_space (rev (dropWhile ascii_space v))) = v" .
  show ?thesis
    unfolding float_parses_def Let_def m f st
    using u signed_digits_float_literal[OF ds(1) ad sgn] ne by simp
qed

lemma column_type_ascii:
  assumes "\<forall>v \<in> set (sampled col rows). \<forall>c \<in> set v. (of_char c :: nat) < 128"
  shows "column_type (scan_column col rows (True, True)) =
     (if list_all integer_pattern (sampled col rows) then ''INTEGER''
      else if list_all float_parses (sampled col rows) then ''REAL''
      else ''TEXT'')"
  using assms by (intro column_type_when_integers_parse) (auto intro: ascii_integer_float_parses)

section \<open>Facts about the calls of \<open>write_to_sqlite\<close>\<close>

text \<open>
  Whatever the database answers, the loop body hands it the calls of \<open>sheet_calls\<close>
  in order and stops at the first that raises; this holds for every sheet of the data.
\<close>

lemma infer_column_types_columns:
  "infer_column_types rows =
     map (\<lambda>col. (col, column_type (scan_column col rows (True, True)))) (sheet_columns rows)"
  by (cases rows) (simp_all add: infer_column_types_def sheet_columns_def Let_def)

lemma write_sheet_calls: "write_sheet sq db sheet = send_all sq db (sheet_calls sheet)"
proof (cases sheet)
  case (Pair table_name rows)
  show ?thesis
  proof (cases rows)
    case Nil
    with Pair show ?thesis by (simp add: write_sheet_def sheet_calls_def sheet_columns_def)
  next
    case (Cons first rest)
    show ?thesis
    proof (cases "filter (\<lambda>col. col \<noteq> []) (keys first) = []")
      case True
      with Pair Cons show ?thesis by (simp add: write_sheet_def sheet_calls_def sheet_columns_def)
    next
      case False
      show ?thesis
        unfolding Pair Cons using False
        by (simp add: write_sheet_def sheet_calls_def sheet_columns_def infer_column_types_def
            comp_def Let_def drop_table_sql_def create_table_sql_def insert_sql_def
            inserted_rows_def split: sum.splits)
    qed
  qed
qed

lemma send_all_append:
  "send_all sq db (cs @ ds) =
     (case send_all sq db cs of Inl x \<Rightarrow> Inl x | Inr db' \<Rightarrow> send_all sq db' ds)"
  by (induction cs arbitrary: db) (simp_all split: sum.splits)

lemma write_sheets_calls:
  "write_sheets sq db data = send_all sq db (concat (map sheet_calls data))"
  by (induction data arbitrary: db) (simp_all add: write_sheet_calls send_all_append split: sum.splits)

lemma write_to_sqlite_calls:
  "data \<noteq> [] \<Longrightarrow> write_to_sqlite sq data db_name =
     (case connect sq db_name of
        Inl e \<Rightarrow> Inl (e, None)
      | Inr conn \<Rightarrow>
          (case send_all sq conn (concat (map sheet_calls data) @ [Commit]) of
             Inl (e, c) \<Rightarrow> Inl (e, Some c)
           | Inr c \<Rightarrow> Inr (Some (close sq c))))"
  by (simp add: write_to_sqlite_def write_sheets_calls send_all_append
      split: sum.splits prod.splits)

text \<open>With a database that accepts every call, the record of a whole run.\<close>

definition statement_call :: "sql_call \<Rightarrow> bool" where
  "statement_call c = (case c of Connect n \<Rightarrow> False | Close \<Rightarrow> False | _ \<Rightarrow> True)"

lemma send_all_recording:
  "list_all statement_call cs \<Longrightarrow> send_all (recording rejects_nothing) log cs = Inr (log @ cs)"
proof (induction cs arbitrary: log)
  case Nil
  show ?case by simp
next
  case (Cons c cs)
  from Cons.prems have "send (recording rejects_nothing) log c = Inr (log @ [c])"
    by (cases c) (simp_all add: statement_call_def recording_def rejects_nothing_def)
  with Cons show ?case by simp
qed

lemma sheet_calls_statements: "list_all statement_call (concat (map sheet_calls data))"
  by (induction data) (simp_all add: sheet_calls_def statement_call_def)

lemma write_to_sqlite_recording:
  assumes "data \<noteq> []"
  shows "write_to_sqlite (recording rejects_nothing) data db_name =
     Inr (Some (Connect db_name # concat (map sheet_calls data) @ [Commit, Close]))"
proof -
  have "list_all statement_call (concat (map sheet_calls data) @ [Commit])"
    using sheet_calls_statements[of data] by (simp add: statement_call_def)
  from send_all_recording[OF this, of "[Connect db_name]"] show ?thesis
    by (simp add: write_to_sqlite_calls[OF assms] recording_def rejects_nothing_def)
qed

lemma scan_column_same_cells:
  "list_all2 (\<lambda>r r'. cell_text col r = cell_text col r') rows rows' \<Longrightarrow>
   scan_column col rows st = scan_column col rows' st"
proof (induction arbitrary: st rule: list_all2_induct)
  case Nil
  show ?case by simp
next
  case (Cons r rs r' rs')
  obtain i f where st: "st = (i, f)" by (cases st)
  from Cons show ?case by (simp add: st scan_column_Cons)
qed

lemma map_rows_cong: "list_all2 (\<lambda>r r'. f r = g r') xs ys \<Longrightarrow> map f xs = map g ys"
  by (induction rule: list_all2_induct) simp_all

text \<open>
  The calls for a sheet read the rows at the columns of the first row only: what the
  rows hold under any other key does not change them.
\<close>

lemma sheet_calls_other_keys:
  assumes "list_all2 (\<lambda>r r'. \<forall>c \<in> set (sheet_columns (first # rest)). map_of r c = map_of r' c)
             rest rest'"
    and "keys first' = keys first"
    and "\<forall>c \<in> set (sheet_columns (first # rest)). map_of first c = map_of first' c"
  shows "sheet_calls (table_name, first # rest) = sheet_calls (table_name, first' # rest')"
proof -
  let ?cols = "sheet_columns (first # rest)"
  have cols: "sheet_columns (first' # rest') = ?cols"
    using assms(2) by (simp add: sheet_columns_def)
  have all: "list_all2 (\<lambda>r r'. \<forall>c \<in> set ?cols. map_of r c = map_of r' c) (first # rest) (first' # rest')"
    using assms(1,3) by simp
  have cells: "list_all2 (\<lambda>r r'. cell_text c r = cell_text c r') (first # rest) (first' # rest')"
    if "c \<in> set ?cols" for c
    using all that by (auto simp: cell_text_def dict_get_def elim!: list_all2_mono)
  have types: "map (\<lambda>col. quoted col @ '' '' @ column_type (scan_column col (first # rest) (True, True))) ?cols
      = map (\<lambda>col. quoted col @ '' '' @ column_type (scan_column col (first' # rest') (True, True))) ?cols"
    using scan_column_same_cells[OF cells] by (intro map_cong) simp_all
  have "list_all2 (\<lambda>r r'. map (\<lambda>col. dict_get r col PNone) ?cols = map (\<lambda>col. dict_get r' col PNone) ?cols)
      (first # rest) (first' # rest')"
    using all by (rule list_all2_mono) (simp add: dict_get_def)
  then have vals: "inserted_rows (first # rest) = inserted_rows (first' # rest')"
    unfolding inserted_rows_def cols by (rule map_rows_cong)
  have ct: "create_table_sql table_name (first # rest) = create_table_sql table_name (first' # rest')"
    unfolding create_table_sql_def cols types by (rule refl)
  have ins: "insert_sql table_name (first # rest) = insert_sql table_name (first' # rest')"
    unfolding insert_sql_def cols by (rule refl)
  show ?thesis
    unfolding sheet_calls_def fst_conv snd_conv cols ct ins vals by (rule refl)
qed

text \<open>
  A row that lacks the key of a column gives \<open>None\<close> in the inserted tuple and the
  empty text in the type inference, which skips it (\<open>scan_column_skip\<close>).
\<close>

lemma missing_key_cell:
  "map_of r col = None \<Longrightarrow> dict_get r col PNone = PNone \<and> cell_text col r = []"
  by (simp add: dict_get_def cell_text_def)

text \<open>
  A sheet name whose alphanumeric characters start with a digit gives a statement that
  SQLite rejects: the function raises at the first call and nothing is created.
\<close>

lemma digit_sheet_name:
  "write_to_sqlite (recording (\<lambda>c. c = Execute ''DROP TABLE IF EXISTS 2024Tasks''))
     [(''2024 Tasks'', [[(''Task'', PStr ''write'')]])] ''sheets.db'' =
     Inl (SqliteError ''DROP TABLE IF EXISTS 2024Tasks'', Some [Connect ''sheets.db''])"
  by code_simp

section \<open>The claims about the orchestration graph\<close>

text \<open>
  C1: the claim does not hold of the code. The router tests
  \<open>"Error:" in state["result"]\<close>, a substring test, while the failures of the query
  tool start with the marker. A result that holds the marker further on (here the rows
  of a query that succeeded, one cell of which is the text \<open>Error: timeout\<close>) does
  not start with it and is still sent back to the generator; when every query gives
  such rows the run generates 8 times and ends in the failure explainer, with a
  successful result in the state.
\<close>

theorem router_substring_false_positive:
  "\<not> startswith ''[('Error: timeout',)]'' ''Error:'' \<and>
   decide_result_status (no_keys\<lparr>result := Some ''[('Error: timeout',)]'', retries := Some 1\<rparr>)
     = Inr ''generate_query'' \<and>
   edge execute_query (no_keys\<lparr>result := Some ''[('Error: timeout',)]'', retries := Some 1\<rparr>)
     = Inr generate_query \<and>
   execute_query_tool rows_with_marker = (\<lambda>n q. ''[('Error: timeout',)]'') \<and>
   (\<exists>tr sf. graph_invoke rows_with_marker initial_state = Inr (tr, sf) \<and>
      visited tr = [classify_intent, generate_query, execute_query, generate_query, execute_query,
        generate_query, execute_query, generate_query, execute_query, generate_query,
        execute_query, generate_query, execute_query, generate_query, execute_query,
        generate_query, execute_query, handle_error] \<and>
      result sf = Some ''[('Error: timeout',)]'' \<and> retries sf = Some 8)"
proof -
  have a: "\<not> startswith ''[('Error: timeout',)]'' ''Error:''" by (simp add: startswith_def)
  have b: "decide_result_status (no_keys\<lparr>result := Some ''[('Error: timeout',)]'', retries := Some 1\<rparr>)
     = Inr ''generate_query''"
    by (simp add: decide_result_status_def subscript_def)
  have c: "edge execute_query (no_keys\<lparr>result := Some ''[('Error: timeout',)]'', retries := Some 1\<rparr>)
     = Inr generate_query"
    by (simp add: edge_execute del: edge.simps)
  have d: "execute_query_tool rows_with_marker = (\<lambda>n q. ''[('Error: timeout',)]'')"
    by (simp add: rows_with_marker_def)
  from graph_invoke_defined[OF initial_state_keys(1), of rows_with_marker]
  obtain tr sf where run: "graph_invoke rows_with_marker initial_state = Inr (tr, sf)" by blast
  with marker_run_nodes have v: "visited tr = [classify_intent, generate_query, execute_query, generate_query, execute_query,
        generate_query, execute_query, generate_query, execute_query, generate_query,
        execute_query, generate_query, execute_query, generate_query, execute_query,
        generate_query, execute_query, handle_error]"
    by (simp add: visited_def)
  have "result (snd (projr (graph_invoke rows_with_marker initial_state))) = Some ''[('Error: timeout',)]'' \<and>
     retries (snd (projr (graph_invoke rows_with_marker initial_state))) = Some 8"
    by (simp add: graph_invoke_def run_from_unfold run_from_END initial_state_def
      step_marker_classify step_marker_generate step_marker_execute step_marker_handle_error
      get_or_def)
  with run have e: "result sf = Some ''[('Error: timeout',)]''" "retries sf = Some 8" by simp_all
  from a b c d run v e show ?thesis by blast
qed

text \<open>
  C9: \<open>decide_intent_path\<close> returns \<open>generate_query\<close> for the intent \<open>DatabaseQuery\<close>
  and \<open>handle_conversation\<close> for every other string, and the conditional edge of the
  graph maps these to the generator and to the conversation handler.
\<close>

theorem intent_branch_exact:
  assumes "intent s = Some i"
  shows "(i = ''DatabaseQuery'' \<longrightarrow> decide_intent_path s = Inr ''generate_query'' \<and>
            edge classify_intent s = Inr generate_query) \<and>
         (i \<noteq> ''DatabaseQuery'' \<longrightarrow> decide_intent_path s = Inr ''handle_conversation'' \<and>
            edge classify_intent s = Inr handle_conversation)"
  using assms by (simp add: edge_classify decide_intent_path_def subscript_def del: edge.simps)

theorem intent_branch_exact_witness:
  "decide_intent_path (no_keys\<lparr>intent := Some ''DatabaseQuery''\<rparr>) = Inr ''generate_query'' \<and>
   edge classify_intent (no_keys\<lparr>intent := Some ''DatabaseQuery''\<rparr>) = Inr generate_query \<and>
   decide_intent_path (no_keys\<lparr>intent := Some ''Conversation''\<rparr>) = Inr ''handle_conversation'' \<and>
   edge classify_intent (no_keys\<lparr>intent := Some ''Conversation''\<rparr>) = Inr handle_conversation \<and>
   decide_intent_path (no_keys\<lparr>intent := Some ''databasequery''\<rparr>) = Inr ''handle_conversation'' \<and>
   edge classify_intent (no_keys\<lparr>intent := Some ''databasequery''\<rparr>) = Inr handle_conversation"
  using intent_branch_exact[of "no_keys\<lparr>intent := Some ''DatabaseQuery''\<rparr>" "''DatabaseQuery''"]
    intent_branch_exact[of "no_keys\<lparr>intent := Some ''Conversation''\<rparr>" "''Conversation''"]
    intent_branch_exact[of "no_keys\<lparr>intent := Some ''databasequery''\<rparr>" "''databasequery''"]
  by simp

text \<open>
  C2: when \<open>result\<close> starts with the marker \<open>Error:\<close>, the router goes back to the
  generator if \<open>retries\<close> is at most 7 and to the failure explainer if it is greater.
  In every run from a state that holds a question, the failure explainer runs at most
  once; where it runs it is the last node of the run, so no generation follows it and
  no terminal node precedes it.
\<close>

theorem router_marker_retry_or_explain:
  "(result s = Some r \<longrightarrow> startswith r ''Error:'' \<longrightarrow> retries s = Some k \<longrightarrow>
      decide_result_status s = Inr (if k \<le> 7 then ''generate_query'' else ''handle_error'') \<and>
      edge execute_query s = Inr (if k \<le> 7 then generate_query else handle_error)) \<and>
   (question s0 = Some q \<longrightarrow>
      (\<exists>tr sf. graph_invoke sv s0 = Inr (tr, sf) \<and>
         length (filter (\<lambda>e. fst e = handle_error) tr) \<le> 1 \<and>
         (\<forall>pre e post. tr = pre @ e # post \<and> fst e = handle_error \<longrightarrow>
            post = [] \<and> (\<forall>x \<in> set pre. fst x \<noteq> handle_error \<and> \<not> terminal (fst x)))))"
proof (intro conjI impI)
  assume a: "result s = Some r" "startswith r ''Error:''" "retries s = Some k"
  then have m: "py_in ''Error:'' r" by (simp add: startswith_def prefix_py_in)
  with a show "decide_result_status s = Inr (if k \<le> 7 then ''generate_query'' else ''handle_error'')"
    by (simp add: decide_result_status_def subscript_def)
  from a m show "edge execute_query s = Inr (if k \<le> 7 then generate_query else handle_error)"
    by (simp add: edge_execute del: edge.simps)
next
  assume "question s0 = Some q"
  then obtain tr sf where run: "graph_invoke sv s0 = Inr (tr, sf)"
    using graph_invoke_defined by blast
  from run_trace_shape[OF run[unfolded graph_invoke_def]]
  have ne: "tr \<noteq> []" and bl: "\<forall>e \<in> set (butlast tr). \<not> terminal (fst e)" by simp_all
  have dec: "post = [] \<and> (\<forall>x \<in> set pre. fst x \<noteq> handle_error \<and> \<not> terminal (fst x))"
    if "tr = pre @ e # post \<and> fst e = handle_error" for pre e post
    using terminal_only_last[OF ne bl, of pre e post] that by auto
  have "filter (\<lambda>e. fst e = handle_error) (butlast tr) = []"
    using bl by (auto simp: filter_empty_conv)
  moreover have "tr = butlast tr @ [last tr]" using ne by simp
  ultimately have "length (filter (\<lambda>e. fst e = handle_error) tr) \<le> 1"
    by (metis (no_types, lifting) append_Nil filter.simps(1,2) filter_append le_numeral_extra(4)
        length_Cons list.size(3) zero_le One_nat_def)
  with run dec show "\<exists>tr sf. graph_invoke sv s0 = Inr (tr, sf) \<and>
         length (filter (\<lambda>e. fst e = handle_error) tr) \<le> 1 \<and>
         (\<forall>pre e post. tr = pre @ e # post \<and> fst e = handle_error \<longrightarrow>
            post = [] \<and> (\<forall>x \<in> set pre. fst x \<noteq> handle_error \<and> \<not> terminal (fst x)))"
    by blast
qed


theorem router_marker_retry_or_explain_witness:
  "startswith ''Error: no such column: x'' ''Error:'' \<and>
   decide_result_status (no_keys\<lparr>result := Some ''Error: no such column: x'', retries := Some 7\<rparr>)
     = Inr ''generate_query'' \<and>
   decide_result_status (no_keys\<lparr>result := Some ''Error: no such column: x'', retries := Some 8\<rparr>)
     = Inr ''handle_error'' \<and>
   question initial_state = Some ''Aaj kya date?'' \<and>
   (\<exists>tr sf. graph_invoke failing initial_state = Inr (tr, sf) \<and>
      visited tr = [classify_intent, generate_query, execute_query, generate_query, execute_query,
        generate_query, execute_query, generate_query, execute_query, generate_query,
        execute_query, generate_query, execute_query, generate_query, execute_query,
        generate_query, execute_query, handle_error] \<and>
      length (filter (\<lambda>e. fst e = handle_error) tr) \<le> 1 \<and>
      tr = butlast tr @ last tr # [] \<and> fst (last tr) = handle_error \<and>
      list_all (\<lambda>x. fst x \<noteq> handle_error \<and> \<not> terminal (fst x)) (butlast tr))"
proof -
  let ?r = "''Error: no such column: x''"
  have p: "startswith ?r ''Error:''" by (simp add: startswith_def)
  have a: "decide_result_status (no_keys\<lparr>result := Some ?r, retries := Some 7\<rparr>) = Inr ''generate_query''"
    using router_marker_retry_or_explain[of "no_keys\<lparr>result := Some ?r, retries := Some 7\<rparr>"
        ?r 7 initial_state "''Aaj kya date?''" failing] p
    by simp
  have b: "decide_result_status (no_keys\<lparr>result := Some ?r, retries := Some 8\<rparr>) = Inr ''handle_error''"
    using router_marker_retry_or_explain[of "no_keys\<lparr>result := Some ?r, retries := Some 8\<rparr>"
        ?r 8 initial_state "''Aaj kya date?''" failing] p
    by simp
  from router_marker_retry_or_explain[of "no_keys\<lparr>result := Some ?r, retries := Some 8\<rparr>"
        ?r 8 initial_state "''Aaj kya date?''" failing] initial_state_keys(1)
  obtain tr sf where run: "graph_invoke failing initial_state = Inr (tr, sf)"
    and c: "length (filter (\<lambda>e. fst e = handle_error) tr) \<le> 1"
    and d: "\<forall>pre e post. tr = pre @ e # post \<and> fst e = handle_error \<longrightarrow>
         post = [] \<and> (\<forall>x \<in> set pre. fst x \<noteq> handle_error \<and> \<not> terminal (fst x))"
    by blast
  note v = failing_run_visited[OF run]
  from v have ne: "tr \<noteq> []" by (auto simp: visited_def)
  then have sp: "tr = butlast tr @ last tr # []" by simp
  from ne have "fst (last tr) = last (visited tr)" by (simp add: visited_def last_map)
  with v have l: "fst (last tr) = handle_error" by simp
  from d sp l have "\<forall>x \<in> set (butlast tr). fst x \<noteq> handle_error \<and> \<not> terminal (fst x)"
    by blast
  then have bl: "list_all (\<lambda>x. fst x \<noteq> handle_error \<and> \<not> terminal (fst x)) (butlast tr)"
    by (simp add: list_all_iff)
  from p a b initial_state_keys(1) run v c sp l bl show ?thesis by blast
qed

text \<open>
  C3: a run from a state that holds a question always returns, whatever the services
  answer and whatever the state holds besides, and it ends in a terminal node; the
  generator runs at most \<open>1 + (7 - retries)\<close> times for the counter the run starts
  with. From a state without a \<open>retries\<close> key (the invocation surface: question and
  history) that is at most 8 generations, and \<open>retries\<close> never exceeds 8. With a
  query tool that fails every time the bound is reached: 8 generations, then the
  failure explainer.
\<close>

theorem repair_loop_bounded:
  assumes "question s0 = Some q"
  shows "\<exists>tr sf. graph_invoke sv s0 = Inr (tr, sf) \<and>
     tr \<noteq> [] \<and> terminal (fst (last tr)) \<and> sf = snd (snd (last tr)) \<and>
     generations tr \<le> 1 + nat (7 - retries_of s0) \<and>
     (retries s0 = None \<longrightarrow>
        generations tr \<le> 8 \<and> (\<forall>t \<in> set (states_after tr). retries_of t \<le> 8))"
proof -
  from assms obtain tr sf where run: "graph_invoke sv s0 = Inr (tr, sf)"
    using graph_invoke_defined by blast
  note run' = run[unfolded graph_invoke_def]
  from run_generations_bound[OF run']
  have g: "generations tr \<le> 1 + nat (7 - retries_of s0)" by simp
  from run_trace_shape[OF run']
  have sh: "tr \<noteq> []" "terminal (fst (last tr))" "sf = snd (snd (last tr))" by simp_all
  have cond: "retries s0 = None \<longrightarrow>
      generations tr \<le> 8 \<and> (\<forall>t \<in> set (states_after tr). retries_of t \<le> 8)"
  proof
    assume "retries s0 = None"
    then have r0: "retries_of s0 = 0" by (simp add: retries_of_def get_or_def)
    with g run_retries_bound[OF run']
    show "generations tr \<le> 8 \<and> (\<forall>t \<in> set (states_after tr). retries_of t \<le> 8)" by simp
  qed
  show ?thesis
    by (rule exI[of _ tr], rule exI[of _ sf]) (use run g sh cond in blast)
qed

theorem repair_loop_bounded_witness:
  "question initial_state = Some ''Aaj kya date?'' \<and> retries initial_state = None \<and>
   (\<exists>tr sf. graph_invoke failing initial_state = Inr (tr, sf) \<and> generations tr = 8 \<and>
     list_all (\<lambda>t. retries_of t \<le> 8) (states_after tr) \<and>
     tr \<noteq> [] \<and> fst (last tr) = handle_error \<and> terminal (fst (last tr)) \<and>
     sf = snd (snd (last tr)))"
proof -
  from repair_loop_bounded[OF initial_state_keys(1), of failing] initial_state_keys(2)
  obtain tr sf where run: "graph_invoke failing initial_state = Inr (tr, sf)"
    and b: "\<forall>t \<in> set (states_after tr). retries_of t \<le> 8"
    and c: "tr \<noteq> []" "terminal (fst (last tr))" "sf = snd (snd (last tr))"
    by blast
  note v = failing_run_visited[OF run]
  have g: "generations tr = 8" by (simp add: generations_visited v)
  from c(1) have "fst (last tr) = last (visited tr)" by (simp add: visited_def last_map)
  with v have l: "fst (last tr) = handle_error" by simp
  from b have b': "list_all (\<lambda>t. retries_of t \<le> 8) (states_after tr)"
    by (simp add: list_all_iff)
  from initial_state_keys run g b' c l show ?thesis by blast
qed

text \<open>
  C4: when the state holds a question, \<open>generate_query_node\<close> returns a dict with
  exactly the keys \<open>query\<close> (the model's text, stripped of the code fences) and
  \<open>retries\<close> (the old value, 0 if absent, plus 1); written over the state it changes
  these two fields only. Along a run that starts without a \<open>retries\<close> key the counter
  starts at 0 and never decreases.
\<close>

theorem generator_writes_query_and_retries:
  "(question s = Some q \<longrightarrow>
      (\<exists>u sql. generate_query_node sv n s = Inr u \<and>
         query u = Some sql \<and> retries u = Some (get_or (retries s) 0 + 1) \<and>
         question u = None \<and> chat_history u = None \<and> result u = None \<and>
         answer u = None \<and> intent u = None \<and>
         apply_update s u = s\<lparr>query := Some sql, retries := Some (get_or (retries s) 0 + 1)\<rparr> \<and>
         sql = py_strip (py_replace (py_replace (py_strip
                 (generate_llm sv n (py_in ''Error:'' (get_or (result s) [])) q
                    (get_or (chat_history s) []) (get_table_info sv n) (get_or (result s) [])))
                 ''```sql'' []) ''```'' []))) \<and>
   (question s0 = Some q0 \<longrightarrow> retries s0 = None \<longrightarrow>
      (\<exists>tr sf. graph_invoke sv s0 = Inr (tr, sf) \<and> retries_of s0 = 0 \<and>
         sorted (map retries_of (s0 # states_after tr))))"
proof (intro conjI impI)
  assume q: "question s = Some q"
  define sql where "sql = py_strip (py_replace (py_replace (py_strip
      (generate_llm sv n (py_in ''Error:'' (get_or (result s) [])) q
         (get_or (chat_history s) []) (get_table_info sv n) (get_or (result s) [])))
      ''```sql'' []) ''```'' [])"
  define u where "u = no_keys\<lparr>query := Some sql, retries := Some (get_or (retries s) 0 + 1)\<rparr>"
  have "generate_query_node sv n s = Inr u"
    by (simp add: generate_query_node_def subscript_def q sql_def u_def Let_def)
  moreover have "query u = Some sql" "retries u = Some (get_or (retries s) 0 + 1)"
    "question u = None" "chat_history u = None" "result u = None" "answer u = None"
    "intent u = None"
    by (simp_all add: u_def)
  moreover have "apply_update s u = s\<lparr>query := Some sql, retries := Some (get_or (retries s) 0 + 1)\<rparr>"
    by (simp add: u_def apply_update_no_keys_upd)
  ultimately show "\<exists>u sql. generate_query_node sv n s = Inr u \<and>
         query u = Some sql \<and> retries u = Some (get_or (retries s) 0 + 1) \<and>
         question u = None \<and> chat_history u = None \<and> result u = None \<and>
         answer u = None \<and> intent u = None \<and>
         apply_update s u = s\<lparr>query := Some sql, retries := Some (get_or (retries s) 0 + 1)\<rparr> \<and>
         sql = py_strip (py_replace (py_replace (py_strip
                 (generate_llm sv n (py_in ''Error:'' (get_or (result s) [])) q
                    (get_or (chat_history s) []) (get_table_info sv n) (get_or (result s) [])))
                 ''```sql'' []) ''```'' [])"
    unfolding sql_def[symmetric] by (intro exI[of _ u] exI[of _ sql]) simp
next
  assume "question s0 = Some q0" and r: "retries s0 = None"
  then obtain tr sf where run: "graph_invoke sv s0 = Inr (tr, sf)"
    using graph_invoke_defined by blast
  from r have "retries_of s0 = 0" by (simp add: retries_of_def get_or_def)
  with run run_retries_sorted[OF run[unfolded graph_invoke_def]]
  show "\<exists>tr sf. graph_invoke sv s0 = Inr (tr, sf) \<and> retries_of s0 = 0 \<and>
         sorted (map retries_of (s0 # states_after tr))"
    by blast
qed

theorem generator_writes_query_and_retries_witness:
  "question initial_state = Some ''Aaj kya date?'' \<and> retries initial_state = None \<and>
   generate_query_node failing 1 initial_state =
     Inr (no_keys\<lparr>query := Some ''SELECT x FROM t'', retries := Some 1\<rparr>) \<and>
   apply_update initial_state (no_keys\<lparr>query := Some ''SELECT x FROM t'', retries := Some 1\<rparr>) =
     initial_state\<lparr>query := Some ''SELECT x FROM t'', retries := Some 1\<rparr> \<and>
   (\<exists>tr sf. graph_invoke failing initial_state = Inr (tr, sf) \<and> retries_of initial_state = 0 \<and>
      sorted (map retries_of (initial_state # states_after tr)))"
proof -
  from generator_writes_query_and_retries[of initial_state "''Aaj kya date?''" failing 1
      initial_state "''Aaj kya date?''"] initial_state_keys
  obtain u sql where u: "generate_query_node failing 1 initial_state = Inr u"
    and a: "apply_update initial_state u =
       initial_state\<lparr>query := Some sql, retries := Some (get_or (retries initial_state) 0 + 1)\<rparr>"
    and r: "\<exists>tr sf. graph_invoke failing initial_state = Inr (tr, sf) \<and>
      retries_of initial_state = 0 \<and> sorted (map retries_of (initial_state # states_after tr))"
    by blast
  have v: "generate_query_node failing 1 initial_state =
     Inr (no_keys\<lparr>query := Some ''SELECT x FROM t'', retries := Some 1\<rparr>)"
    by (simp add: generate_query_node_def subscript_def failing_def Let_def initial_state_def
        sql_failing get_or_def)
  with u have "u = no_keys\<lparr>query := Some ''SELECT x FROM t'', retries := Some 1\<rparr>" by simp
  with a have "apply_update initial_state (no_keys\<lparr>query := Some ''SELECT x FROM t'', retries := Some 1\<rparr>) =
     initial_state\<lparr>query := Some ''SELECT x FROM t'', retries := Some 1\<rparr>"
    by (simp add: apply_update_no_keys_upd)
  with initial_state_keys v r show ?thesis by blast
qed

text \<open>
  C5: when the state holds a question, \<open>classify_intent_node\<close> returns a dict that
  sets \<open>intent\<close>, for every answer of the model: \<open>Conversation\<close> when the answer has
  no tool call, the name of the first tool call otherwise.
\<close>

theorem classifier_always_sets_intent:
  assumes "question s = Some q"
  shows "\<exists>u i. classify_intent_node sv n s = Inr u \<and> intent u = Some i \<and>
     intent (apply_update s u) = Some i \<and>
     (classify_llm sv n q (get_or (chat_history s) []) = [] \<longrightarrow> i = ''Conversation'') \<and>
     (\<forall>tc rest. classify_llm sv n q (get_or (chat_history s) []) = tc # rest \<longrightarrow> i = tc_name tc)"
proof -
  define i where "i = (case classify_llm sv n q (get_or (chat_history s) []) of
      [] \<Rightarrow> ''Conversation'' | tc # _ \<Rightarrow> tc_name tc)"
  have "classify_intent_node sv n s = Inr (no_keys\<lparr>intent := Some i\<rparr>)"
    by (simp add: classify_intent_node_def subscript_def assms i_def Let_def)
  moreover have "intent (no_keys\<lparr>intent := Some i\<rparr>) = Some i" by simp
  moreover have "intent (apply_update s (no_keys\<lparr>intent := Some i\<rparr>)) = Some i" by simp
  moreover have "classify_llm sv n q (get_or (chat_history s) []) = [] \<longrightarrow> i = ''Conversation''"
    by (simp add: i_def)
  moreover have "\<forall>tc rest. classify_llm sv n q (get_or (chat_history s) []) = tc # rest \<longrightarrow> i = tc_name tc"
    by (simp add: i_def)
  ultimately show ?thesis by blast
qed

theorem classifier_always_sets_intent_witness:
  "question initial_state = Some ''Aaj kya date?'' \<and>
   classify_llm chatty 0 ''Aaj kya date?'' (get_or (chat_history initial_state) []) = [] \<and>
   (\<exists>u. classify_intent_node chatty 0 initial_state = Inr u \<and> intent u = Some ''Conversation'' \<and>
      intent (apply_update initial_state u) = Some ''Conversation'') \<and>
   classify_llm failing 0 ''Aaj kya date?'' (get_or (chat_history initial_state) []) =
     [\<lparr>tc_name = ''DatabaseQuery'', tc_args = ''{}''\<rparr>] \<and>
   (\<exists>u. classify_intent_node failing 0 initial_state = Inr u \<and> intent u = Some ''DatabaseQuery'' \<and>
      intent (apply_update initial_state u) = Some ''DatabaseQuery'')"
proof -
  have c: "classify_llm chatty 0 ''Aaj kya date?'' (get_or (chat_history initial_state) []) = []"
    by (simp add: chatty_def)
  have f: "classify_llm failing 0 ''Aaj kya date?'' (get_or (chat_history initial_state) []) =
     [\<lparr>tc_name = ''DatabaseQuery'', tc_args = ''{}''\<rparr>]"
    by (simp add: failing_def)
  from classifier_always_sets_intent[OF initial_state_keys(1), of chatty 0] c
  have 1: "\<exists>u. classify_intent_node chatty 0 initial_state = Inr u \<and> intent u = Some ''Conversation'' \<and>
      intent (apply_update initial_state u) = Some ''Conversation''"
    by metis
  from classifier_always_sets_intent[OF initial_state_keys(1), of failing 0] f
  have 2: "\<exists>u. classify_intent_node failing 0 initial_state = Inr u \<and> intent u = Some ''DatabaseQuery'' \<and>
      intent (apply_update initial_state u) = Some ''DatabaseQuery''"
    by (metis tool_call.select_convs(1))
  from initial_state_keys(1) c f 1 2 show ?thesis by blast
qed

text \<open>
  C8: every run from a state that holds a question returns; exactly one node of its
  trace is terminal (the conversation handler, the summarizer or the failure explainer)
  and it is the last one; the nodes that write \<open>answer\<close> are exactly the terminal
  ones, so \<open>answer\<close> is written once, by the last node; before it \<open>answer\<close> is as it
  was at the start, and the final state holds what the terminal node wrote.
\<close>

theorem answer_written_once_by_terminal:
  assumes "question s0 = Some q"
  shows "\<exists>tr sf. graph_invoke sv s0 = Inr (tr, sf) \<and> tr \<noteq> [] \<and>
     terminal (fst (last tr)) \<and>
     (\<forall>e \<in> set (butlast tr). \<not> terminal (fst e)) \<and>
     (\<forall>e \<in> set tr. writes_answer e = terminal (fst e)) \<and>
     filter writes_answer tr = [last tr] \<and>
     (\<forall>e \<in> set (butlast tr). answer (snd (snd e)) = answer s0) \<and>
     sf = snd (snd (last tr)) \<and> answer sf = answer (fst (snd (last tr))) \<and> answer sf \<noteq> None"
proof -
  from assms obtain tr sf where run: "graph_invoke sv s0 = Inr (tr, sf)"
    using graph_invoke_defined by blast
  note run' = run[unfolded graph_invoke_def]
  from run_trace_shape[OF run']
  have ne: "tr \<noteq> []" and tl: "terminal (fst (last tr))"
    and bl: "\<forall>e \<in> set (butlast tr). \<not> terminal (fst e)" and sf: "sf = snd (snd (last tr))"
    by simp_all
  from run_answer_writes[OF run']
  have w: "\<forall>e \<in> set tr. writes_answer e = terminal (fst e)"
    and k: "\<forall>e \<in> set tr. \<not> terminal (fst e) \<longrightarrow> answer (snd (snd e)) = answer s0"
    by simp_all
  have bw: "\<forall>e \<in> set (butlast tr). \<not> writes_answer e"
    using w bl by (meson in_set_butlastD)
  have lw: "writes_answer (last tr)" using w tl ne by simp
  from filter_only_last[OF ne bw lw] have f: "filter writes_answer tr = [last tr]" .
  have kb: "\<forall>e \<in> set (butlast tr). answer (snd (snd e)) = answer s0"
    using k bl by (meson in_set_butlastD)
  have la: "answer sf = answer (fst (snd (last tr))) \<and> answer sf \<noteq> None"
  proof -
    have "\<forall>e \<in> set tr. terminal (fst e) \<longrightarrow> answer (snd (snd e)) = answer (fst (snd e))"
      using run'
    proof (induction rule: run_from_trace_induct)
      case (END n s)
      show ?case by simp
    next
      case (step n nd s u s' nd' tr sf)
      show ?case
      proof (cases "terminal nd")
        case True
        with step.hyps(2) have "answer s' = answer u" by (simp add: step_terminal_facts)
        with step.IH show ?thesis by simp
      next
        case False
        with step.IH show ?thesis by simp
      qed
    qed
    with ne tl sf have "answer sf = answer (fst (snd (last tr)))" by simp
    moreover from lw have "answer (fst (snd (last tr))) \<noteq> None" by (simp add: writes_answer_def)
    ultimately show ?thesis by simp
  qed
  from run ne tl bl w f kb sf la show ?thesis by blast
qed

theorem answer_written_once_by_terminal_witness:
  "question initial_state = Some ''Aaj kya date?'' \<and>
   (\<exists>tr sf. graph_invoke failing initial_state = Inr (tr, sf) \<and>
     visited tr = [classify_intent, generate_query, execute_query, generate_query, execute_query,
        generate_query, execute_query, generate_query, execute_query, generate_query,
        execute_query, generate_query, execute_query, generate_query, execute_query,
        generate_query, execute_query, handle_error] \<and>
     tr \<noteq> [] \<and> terminal (fst (last tr)) \<and>
     list_all (\<lambda>e. \<not> terminal (fst e)) (butlast tr) \<and>
     list_all (\<lambda>e. writes_answer e = terminal (fst e)) tr \<and>
     filter writes_answer tr = [last tr] \<and>
     list_all (\<lambda>e. answer (snd (snd e)) = answer initial_state) (butlast tr) \<and>
     sf = snd (snd (last tr)) \<and> answer sf = answer (fst (snd (last tr))) \<and> answer sf \<noteq> None)"
proof -
  from answer_written_once_by_terminal[OF initial_state_keys(1), of failing]
  obtain tr sf where run: "graph_invoke failing initial_state = Inr (tr, sf)"
    and rest: "tr \<noteq> []" "terminal (fst (last tr))"
     "\<forall>e \<in> set (butlast tr). \<not> terminal (fst e)"
     "\<forall>e \<in> set tr. writes_answer e = terminal (fst e)"
     "filter writes_answer tr = [last tr]"
     "\<forall>e \<in> set (butlast tr). answer (snd (snd e)) = answer initial_state"
     "sf = snd (snd (last tr))" "answer sf = answer (fst (snd (last tr)))" "answer sf \<noteq> None"
    by blast
  from rest(3,4,6) have l: "list_all (\<lambda>e. \<not> terminal (fst e)) (butlast tr)"
    "list_all (\<lambda>e. writes_answer e = terminal (fst e)) tr"
    "list_all (\<lambda>e. answer (snd (snd e)) = answer initial_state) (butlast tr)"
    by (simp_all add: list_all_iff)
  from initial_state_keys(1) run failing_run_visited[OF run] rest(1,2,5,7,8,9) l
  show ?thesis by blast
qed


section \<open>The claims about the ingestion script\<close>

text \<open>
  C6, as the claim states it, fails: both flags start \<open>True\<close>, an empty value is
  skipped before any test, so a column of empty values keeps \<open>is_integer\<close> and is
  typed INTEGER, not TEXT.
\<close>

theorem empty_column_counterexample:
  "infer_column_types [[(''Notes'', PStr '''')], [(''Notes'', PStr '''')]] = [(''Notes'', ''INTEGER'')] \<and>
   map_of (infer_column_types [[(''Notes'', PStr '''')], [(''Notes'', PStr '''')]]) ''Notes''
     \<noteq> Some ''TEXT''"
  by (simp add: infer_column_types_def keys_def scan_column_Cons cell_text_def dict_get_def
      column_type_def)

text \<open>
  C6, amended: a column of the first row, of a non-empty name, in which the text of
  every cell is empty (an empty string, or the key is missing from the row) is typed
  INTEGER.
\<close>

theorem empty_column_is_integer:
  assumes "rows = first # rest" and "col \<in> set (keys first)" and "col \<noteq> []"
    and "\<forall>r \<in> set rows. cell_text col r = []"
  shows "map_of (infer_column_types rows) col = Some ''INTEGER''"
  using infer_column_types_lookup[OF assms(1-3)] scan_column_all_empty[OF assms(4), of "(True, True)"]
  by (simp add: column_type_def)

theorem empty_column_is_integer_witness:
  "''Notes'' \<in> set (keys [(''Notes'', PStr [])]) \<and>
   cell_text ''Notes'' [(''Notes'', PStr [])] = [] \<and>
   cell_text ''Notes'' [(''Other'', PInt 1)] = [] \<and>
   map_of (infer_column_types [[(''Notes'', PStr [])], [(''Other'', PInt 1)]]) ''Notes''
     = Some ''INTEGER''"
proof -
  have k: "''Notes'' \<in> set (keys [(''Notes'', PStr [])])" by (simp add: keys_def)
  have n: "''Notes'' \<noteq> []" by simp
  have e1: "cell_text ''Notes'' [(''Notes'', PStr [])] = []"
    and e2: "cell_text ''Notes'' [(''Other'', PInt 1)] = []"
    by (simp_all add: cell_text_def dict_get_def)
  then have e: "\<forall>r \<in> set [[(''Notes'', PStr [])], [(''Other'', PInt 1)]]. cell_text ''Notes'' r = []"
    by simp
  from empty_column_is_integer[OF refl k n e] k e1 e2 show ?thesis by blast
qed

text \<open>
  C7: the three examples of the claim hold. The general statement fails on a column
  that holds a superscript digit before a decimal number: \<open>str.isdigit\<close> accepts the
  superscript two, so the value passes the integer test and is never given to
  \<open>float\<close>, which would reject it; the column is typed REAL although one of its values
  is not readable as a float. With the two rows in the other order the same column is
  typed TEXT.
\<close>

theorem column_type_examples_and_superscript_digit:
  "infer_column_types [[(''n'', PStr ''1'')], [(''n'', PStr ''2'')], [(''n'', PStr ''3'')]]
     = [(''n'', ''INTEGER'')] \<and>
   infer_column_types [[(''n'', PStr ''1'')], [(''n'', PStr ''2.5'')]] = [(''n'', ''REAL'')] \<and>
   infer_column_types [[(''n'', PStr ''1'')], [(''n'', PStr ''abc'')]] = [(''n'', ''TEXT'')] \<and>
   integer_pattern [CHR 0xB2] \<and> \<not> float_parses [CHR 0xB2] \<and>
   \<not> integer_pattern ''2.5'' \<and> float_parses ''2.5'' \<and>
   infer_column_types [[(''n'', PStr [CHR 0xB2])], [(''n'', PStr ''2.5'')]] = [(''n'', ''REAL'')] \<and>
   infer_column_types [[(''n'', PStr ''2.5'')], [(''n'', PStr [CHR 0xB2])]] = [(''n'', ''TEXT'')]"
  by code_simp

text \<open>
  C10: the claim does not hold of the code when a key of the first row contains a
  double quote, because the names are put between double quotes without escaping.
  For a sheet whose first row has the single key \<open>x" TEXT, "y\<close> and whose second
  row has the key \<open>y\<close>, the CREATE TABLE statement sent is the one of a sheet with
  the two columns \<open>x\<close> and \<open>y\<close>: the table gets columns that are not keys of the
  first row, one of them a key that only a later row has. The INSERT statement that
  follows is malformed; when the database rejects it the function raises before the
  commit, after the table was created.
\<close>

theorem unescaped_header_declares_other_columns:
  "keys [(''x'' @ [CHR 0x22] @ '' TEXT, '' @ [CHR 0x22] @ ''y'', PInt 1)]
     = [''x'' @ [CHR 0x22] @ '' TEXT, '' @ [CHR 0x22] @ ''y''] \<and>
   write_to_sqlite (recording rejects_nothing)
     [(''T'', [[(''x'' @ [CHR 0x22] @ '' TEXT, '' @ [CHR 0x22] @ ''y'', PInt 1)], [(''y'', PInt 2)]])]
     ''sheets.db'' =
     Inr (Some [Connect ''sheets.db'',
       Execute ''DROP TABLE IF EXISTS T'',
       Execute (''CREATE TABLE T ('' @ quoted ''x'' @ '' TEXT, '' @ quoted ''y'' @ '' INTEGER)''),
       ExecuteMany (''INSERT INTO T ('' @ quoted ''x'' @ '' TEXT, '' @ quoted ''y'' @ '') VALUES (?)'')
         [[PInt 1], [PNone]],
       Commit, Close]) \<and>
   create_table_sql ''T''
     [[(''x'' @ [CHR 0x22] @ '' TEXT, '' @ [CHR 0x22] @ ''y'', PInt 1)], [(''y'', PInt 2)]]
     = create_table_sql ''T'' [[(''x'', PStr ''a''), (''y'', PInt 2)]] \<and>
   write_to_sqlite (recording rejects_insert)
     [(''T'', [[(''x'' @ [CHR 0x22] @ '' TEXT, '' @ [CHR 0x22] @ ''y'', PInt 1)], [(''y'', PInt 2)]])]
     ''sheets.db'' =
     Inl (SqliteError (''INSERT INTO T ('' @ quoted ''x'' @ '' TEXT, '' @ quoted ''y'' @ '') VALUES (?)''),
          Some [Connect ''sheets.db'',
            Execute ''DROP TABLE IF EXISTS T'',
            Execute (''CREATE TABLE T ('' @ quoted ''x'' @ '' TEXT, '' @ quoted ''y'' @ '' INTEGER)'')])"
  by code_simp

end
